theory Spec2Isabelle
  imports Complex_Main
begin

section \<open>Strings and regular expressions of the browser code\<close>

text \<open>
  The scripts are JavaScript. A string is modelled as a \<open>char list\<close> (one \<open>char\<close> per
  code unit, ASCII for everything the regular expressions look at), a JavaScript number as a
  \<open>real\<close> (exact arithmetic: the rounding of IEEE doubles is not modelled) and the
  not-a-number value of a parser as \<open>None\<close>.
\<close>

definition lower_letters :: string where
  "lower_letters = ''abcdefghijklmnopqrstuvwxyz''"

definition upper_letters :: string where
  "upper_letters = ''ABCDEFGHIJKLMNOPQRSTUVWXYZ''"

text \<open>\<open>String.prototype.toUpperCase\<close> on an ASCII string.\<close>

definition upper_char :: "char \<Rightarrow> char" where
  "upper_char c = (case map_of (zip lower_letters upper_letters) c of Some u \<Rightarrow> u | None \<Rightarrow> c)"

definition toUpperCase :: "string \<Rightarrow> string" where
  "toUpperCase s = map upper_char s"

text \<open>White space as \<open>trim()\<close> and \<open>\s\<close> see it: tab, line feed, vertical tab, form
  feed, carriage return and space.\<close>

definition ws_chars :: string where
  "ws_chars = [CHR 0x09, CHR 0x0A, CHR 0x0B, CHR 0x0C, CHR 0x0D, CHR 0x20]"

definition is_ws :: "char \<Rightarrow> bool" where
  "is_ws c = (c \<in> set ws_chars)"

definition trim :: "string \<Rightarrow> string" where
  "trim s = rev (dropWhile is_ws (rev (dropWhile is_ws s)))"

definition digit_chars :: string where
  "digit_chars = ''0123456789''"

definition is_digit :: "char \<Rightarrow> bool" where
  "is_digit c = (c \<in> set digit_chars)"

text \<open>
  The regular expressions of the scripts, as syntax trees. \<open>Cls cs\<close> is a character class
  (a literal character is a class of one), \<open>Bol\<close> and \<open>Eol\<close> are \<open>^\<close> and \<open>$\<close>,
  \<open>Star\<close> is the greedy \<open>*\<close> and \<open>Group i r\<close> the capturing group number \<open>i\<close>.
\<close>

datatype regex =
    Eps
  | Cls "char list"
  | Bol
  | Eol
  | Seq regex regex
  | Alt regex regex
  | Star regex
  | Group nat regex

definition Plus :: "regex \<Rightarrow> regex" where
  "Plus r = Seq r (Star r)"

definition Opt :: "regex \<Rightarrow> regex" where
  "Opt r = Alt r Eps"

fun Lit :: "string \<Rightarrow> regex" where
  "Lit [] = Eps"
| "Lit (c # cs) = Seq (Cls [c]) (Lit cs)"

fun Seqs :: "regex list \<Rightarrow> regex" where
  "Seqs [] = Eps"
| "Seqs (r # rs) = Seq r (Seqs rs)"

type_synonym captures = "(nat \<times> string) list"
type_synonym mstate = "captures \<times> string"

text \<open>With the flag \<open>i\<close> two characters match when their upper-case forms agree.\<close>

definition canon :: "bool \<Rightarrow> char \<Rightarrow> char" where
  "canon ic c = (if ic then upper_char c else c)"

text \<open>
  The backtracking matcher of ECMAScript as a list of successes, most preferred first:
  \<open>ms ic n r (caps, rest)\<close> lists every way \<open>r\<close> can match a prefix of \<open>rest\<close>, with the
  captures and the text left over. \<open>n\<close> is the length of the whole input, for \<open>^\<close>. A
  \<open>Star\<close> iteration that consumes nothing is rejected, as the language definition says.
\<close>

function ms :: "bool \<Rightarrow> nat \<Rightarrow> regex \<Rightarrow> mstate \<Rightarrow> mstate list" where
  "ms ic n Eps st = [st]"
| "ms ic n (Cls cs) (c, []) = []"
| "ms ic n (Cls cs) (c, x # xs) =
     (if canon ic x \<in> set (map (canon ic) cs) then [(c, xs)] else [])"
| "ms ic n Bol (c, s) = (if length s = n then [(c, s)] else [])"
| "ms ic n Eol (c, s) = (if s = [] then [(c, s)] else [])"
| "ms ic n (Seq a b) st = concat (map (ms ic n b) (ms ic n a st))"
| "ms ic n (Alt a b) st = ms ic n a st @ ms ic n b st"
| "ms ic n (Star a) st =
     concat (map (ms ic n (Star a))
                 (filter (\<lambda>st'. length (snd st') < length (snd st)) (ms ic n a st))) @ [st]"
| "ms ic n (Group i a) (c, s) =
     map (\<lambda>(c', s'). ((i, take (length s - length s') s) # c', s')) (ms ic n a (c, s))"
  by pat_completeness auto
termination
  by (relation "measures [\<lambda>(ic, n, r, st). size r, \<lambda>(ic, n, r, st). length (snd st)]") auto

declare ms.simps(8) [simp del]

definition match_at :: "bool \<Rightarrow> regex \<Rightarrow> string \<Rightarrow> string \<Rightarrow> mstate option" where
  "match_at ic r s0 rest =
     (case ms ic (length s0) r ([], rest) of [] \<Rightarrow> None | m # _ \<Rightarrow> Some m)"

text \<open>\<open>RegExp.prototype.exec\<close> from a position on: the first position where the pattern
  matches, with the text from there, the captures and the text after the match.\<close>

fun exec :: "bool \<Rightarrow> regex \<Rightarrow> string \<Rightarrow> string \<Rightarrow> (string \<times> mstate) option" where
  "exec ic r s0 [] = (case match_at ic r s0 [] of Some m \<Rightarrow> Some ([], m) | None \<Rightarrow> None)"
| "exec ic r s0 (x # t) =
     (case match_at ic r s0 (x # t) of Some m \<Rightarrow> Some (x # t, m) | None \<Rightarrow> exec ic r s0 t)"

definition regex_test :: "bool \<Rightarrow> regex \<Rightarrow> string \<Rightarrow> bool" where
  "regex_test ic r s = (exec ic r s s \<noteq> None)"

text \<open>Decimal rendering of an integer, as \<open>String(n)\<close> and a template literal do.\<close>

fun show_nat :: "nat \<Rightarrow> string" where
  "show_nat n = (if n < 10 then [digit_chars ! n] else show_nat (n div 10) @ [digit_chars ! (n mod 10)])"

declare show_nat.simps [simp del]

definition show_int :: "int \<Rightarrow> string" where
  "show_int i = (if i < 0 then CHR ''-'' # show_nat (nat (- i)) else show_nat (nat i))"

section \<open>stats\_quality.js: the statistics cards\<close>

text \<open>
  A counter snapshot maps counter names to JSON values. The backend sends numbers
  (integer counts); \<open>JOther\<close> stands for any value \<open>sumKeys\<close> skips (null, booleans,
  objects, text that is not a number).
\<close>

datatype jsval = JNum int | JOther

type_synonym snapshot = "string \<rightharpoonup> jsval"

fun sumKeys :: "snapshot \<Rightarrow> string list \<Rightarrow> int" where
  "sumKeys obj [] = 0"
| "sumKeys obj (k # ks) = (case obj k of Some (JNum v) \<Rightarrow> v | _ \<Rightarrow> 0) + sumKeys obj ks"

record link_info =
  l_ok :: "bool option"
  l_link :: string
  l_speed :: string

text \<open>The separator of \<open>parts.join\<close>, byte for byte as the source file stores it.\<close>

definition link_sep :: string where
  "link_sep = [CHR 0x20, CHR 0xC3, CHR 0xA2, CHR 0xE2, CHR 0x82, CHR 0xAC, CHR 0xC2, CHR 0xA2, CHR 0x20]"

definition renderLinkInfo :: "link_info option \<Rightarrow> string" where
  "renderLinkInfo link =
     (case link of
        None \<Rightarrow> ''--''
      | Some li \<Rightarrow>
          if l_ok li = Some False then ''--''
          else let l = trim (l_link li); sp = trim (l_speed li) in
            if l \<noteq> [] \<and> sp \<noteq> [] then l @ link_sep @ sp
            else if l \<noteq> [] then l
            else if sp \<noteq> [] then sp
            else ''--'')"

record verdict =
  label :: string
  cls :: string

text \<open>The pattern \<open>/down|disconnected|no/i\<close>.\<close>

definition link_down_re :: regex where
  "link_down_re = Alt (Lit ''down'') (Alt (Lit ''disconnected'') (Lit ''no''))"

definition linkDown :: "string \<Rightarrow> bool" where
  "linkDown linkText = regex_test True link_down_re linkText"

definition computeQuality :: "int \<Rightarrow> int \<Rightarrow> int \<Rightarrow> string \<Rightarrow> verdict" where
  "computeQuality pktErrDelta dropDelta crcDelta linkText =
     (let crc = crcDelta; pe = pktErrDelta; dr = dropDelta in
      if linkDown linkText then \<lparr>label = ''BAD (link)'', cls = ''bad''\<rparr>
      else if crc > 0 then \<lparr>label = ''BAD (CRC +'' @ show_int crc @ '')'', cls = ''bad''\<rparr>
      else let score = pe + dr in
        if score = 0 then \<lparr>label = ''OK'', cls = ''ok''\<rparr>
        else if score \<le> 5 then \<lparr>label = ''WARN (+'' @ show_int score @ '')'', cls = ''warn''\<rparr>
        else \<lparr>label = ''BAD (+'' @ show_int score @ '')'', cls = ''bad''\<rparr>)"

text \<open>\<open>a || b\<close> on numbers: \<open>b\<close> when \<open>a\<close> is zero.\<close>

definition js_or :: "int \<Rightarrow> int \<Rightarrow> int" where
  "js_or a b = (if a \<noteq> 0 then a else b)"

record stats =
  s_link :: "link_info option"
  s_delta :: "snapshot option"

record cards =
  linkInfo :: string
  pktErrDelta_text :: string
  dropDelta_text :: string
  crcDelta_text :: string
  pktErrDelta_cls :: string
  dropDelta_cls :: string
  qualityBadge :: verdict

definition crc_keys :: "string list" where
  "crc_keys = [''rx_crc_errors'', ''rx_fcs_errors'', ''rx_crc_err'', ''rx_fcs_err'',
               ''crc_errors'', ''fcs_errors'']"

definition updateStatsCards :: "stats \<Rightarrow> cards" where
  "updateStatsCards st =
     (let linkText = renderLinkInfo (s_link st);
          delta = (case s_delta st of Some d \<Rightarrow> d | None \<Rightarrow> Map.empty);
          winPktErr = sumKeys delta [''ReceivedErrors'', ''OutboundErrors''];
          winDrop = sumKeys delta [''ReceivedDiscarded'', ''OutboundDiscarded''];
          nixPktErr = sumKeys delta [''rx_errors'', ''tx_errors''];
          nixDrop = sumKeys delta [''rx_dropped'', ''tx_dropped'', ''rx_missed_errors''];
          crc = sumKeys delta crc_keys;
          pktErrDelta = js_or winPktErr nixPktErr;
          dropDelta = js_or winDrop nixDrop
      in \<lparr>linkInfo = linkText,
          pktErrDelta_text = show_int (js_or pktErrDelta 0),
          dropDelta_text = show_int (js_or dropDelta 0),
          crcDelta_text =
            (if crc > 0 then show_int crc
             else if ''rx_crc_errors'' \<in> dom delta \<or> ''rx_fcs_errors'' \<in> dom delta then ''0''
             else ''n/a''),
          pktErrDelta_cls = (if pktErrDelta = 0 then ''ok'' else if pktErrDelta \<le> 5 then ''warn'' else ''bad''),
          dropDelta_cls = (if dropDelta = 0 then ''ok'' else if dropDelta \<le> 20 then ''warn'' else ''bad''),
          qualityBadge = computeQuality pktErrDelta dropDelta crc linkText\<rparr>)"

text \<open>A match never gives text back: what is left over is no longer than what it started from.\<close>

lemma ms_len: "st' \<in> set (ms ic n r st) \<Longrightarrow> length (snd st') \<le> length (snd st)"
proof (induction ic n r st arbitrary: st' rule: ms.induct)
  case (1 ic n st)
  then show ?case by simp
next
  case (2 ic n cs c)
  then show ?case by simp
next
  case (3 ic n cs c x xs)
  then show ?case by (simp split: if_splits)
next
  case (4 ic n c s)
  then show ?case by (simp split: if_splits)
next
  case (5 ic n c s)
  then show ?case by (simp split: if_splits)
next
  case (6 ic n a b st)
  from 6(3) obtain m where m: "m \<in> set (ms ic n a st)" "st' \<in> set (ms ic n b m)" by auto
  from 6(1) [OF m(1)] 6(2) [OF m(1) m(2)] show ?case by simp
next
  case (7 ic n a b st)
  from 7(3) have "st' \<in> set (ms ic n a st) \<or> st' \<in> set (ms ic n b st)" by simp
  with 7(1,2) show ?case by blast
next
  case (8 ic n a st)
  from 8(3) have "st' = st \<or> (\<exists>m \<in> set (ms ic n a st). length (snd m) < length (snd st) \<and> st' \<in> set (ms ic n (Star a) m))"
    by (subst (asm) ms.simps(8)) auto
  then show ?case
  proof
    assume "st' = st"
    then show ?thesis by simp
  next
    assume "\<exists>m \<in> set (ms ic n a st). length (snd m) < length (snd st) \<and> st' \<in> set (ms ic n (Star a) m)"
    then obtain m where m: "m \<in> set (ms ic n a st)" "length (snd m) < length (snd st)"
      "st' \<in> set (ms ic n (Star a) m)" by blast
    from m(1,2) have "m \<in> set (filter (\<lambda>st'. length (snd st') < length (snd st)) (ms ic n a st))" by simp
    from 8(2) [OF this m(3)] m(2) show ?thesis by simp
  qed
next
  case (9 ic n i a c s)
  from 9(2) obtain c' s' where "(c', s') \<in> set (ms ic n a (c, s))" "snd st' = s'" by auto
  with 9(1) [of "(c', s')"] show ?case by simp
qed

lemma exec_len:
  "exec ic r s0 rest = Some (start, caps, rest') \<Longrightarrow>
     length start \<le> length rest \<and> length rest' \<le> length start"
proof (induction rest)
  case Nil
  then show ?case
    using ms_len [of "(caps, rest')" ic "length s0" r "([], [])"]
    by (auto simp: match_at_def split: option.splits list.splits)
next
  case (Cons x t)
  show ?case
  proof (cases "match_at ic r s0 (x # t)")
    case None
    with Cons show ?thesis by simp
  next
    case (Some m)
    with Cons.prems have m: "m = (caps, rest')" "start = x # t" by auto
    from Some m have "(caps, rest') \<in> set (ms ic (length s0) r ([], x # t))"
      by (auto simp: match_at_def split: list.splits)
    from ms_len [OF this] m show ?thesis by simp
  qed
qed

text \<open>
  \<open>String.prototype.matchAll\<close> with a global pattern: the matches from left to right, each
  search starting where the match before ended (one character further after an empty
  match). Every match is the text from its start, its captures and the text after it.
\<close>

function matchAll :: "bool \<Rightarrow> regex \<Rightarrow> string \<Rightarrow> string \<Rightarrow> (string \<times> mstate) list" where
  "matchAll ic r s0 rest =
     (case exec ic r s0 rest of
        None \<Rightarrow> []
      | Some (start, caps, rest') \<Rightarrow>
          (start, caps, rest') #
          (if length rest' < length start then matchAll ic r s0 rest'
           else case rest' of [] \<Rightarrow> [] | x # t \<Rightarrow> matchAll ic r s0 t))"
  by pat_completeness auto
termination
proof (relation "measure (\<lambda>(ic, r, s0, rest). length rest)")
  show "wf (measure (\<lambda>(ic, r, s0, rest). length rest))" by simp
  show "((ic, r, s0, rest'), ic, r, s0, rest) \<in> measure (\<lambda>(ic, r, s0, rest). length rest)"
    if "exec ic r s0 rest = Some x2" "(start, y) = x2" "(caps, rest') = y" "length rest' < length start"
    for ic r s0 rest x2 start y caps rest'
    using that exec_len [of ic r s0 rest start caps rest'] by auto
  show "((ic, r, s0, t), ic, r, s0, rest) \<in> measure (\<lambda>(ic, r, s0, rest). length rest)"
    if "exec ic r s0 rest = Some x2" "(start, y) = x2" "(caps, rest') = y" "\<not> length rest' < length start"
      "rest' = x # t"
    for ic r s0 rest x2 start y caps rest' x t
    using that exec_len [of ic r s0 rest start caps rest'] by auto
qed

declare matchAll.simps [simp del]

section \<open>runTest.js: the parser of throughput lines\<close>

text \<open>\<open>toSelectedUnits\<close>: iperf's K/M/G bits per second to Mbps, then to the display unit.\<close>

definition toSelectedUnits :: "real \<Rightarrow> string \<Rightarrow> string \<Rightarrow> real" where
  "toSelectedUnits val prefix units =
     (let p = toUpperCase (if prefix = [] then ''M'' else prefix);
          mbps = (if p = ''K'' then val / 1000 else if p = ''G'' then val * 1000 else val)
      in if units = ''Kbps'' then mbps * 1000
         else if units = ''Gbps'' then mbps / 1000
         else mbps)"

text \<open>The pattern \<open>/^-?\d+(\.\d+)?$/\<close>.\<close>

definition digits_re :: regex where
  "digits_re = Plus (Cls digit_chars)"

definition numeric_re :: regex where
  "numeric_re = Seqs [Bol, Opt (Cls ''-''), digits_re,
                      Opt (Group 1 (Seq (Cls ''.'') digits_re)), Eol]"

text \<open>The pattern
  \<open>/([0-9]+(?:\.[0-9]+)?)\s*([KMG])?\s*(?:bits\/sec|bit\/s|bits\/s|bit\/sec)/gi\<close>.\<close>

definition bandwidth_re :: regex where
  "bandwidth_re =
     Seqs [Group 1 (Seq digits_re (Opt (Seq (Cls ''.'') digits_re))),
           Star (Cls ws_chars),
           Opt (Group 2 (Cls ''KMG'')),
           Star (Cls ws_chars),
           Alt (Lit ''bits/sec'') (Alt (Lit ''bit/s'') (Alt (Lit ''bits/s'') (Lit ''bit/sec'')))]"

text \<open>
  \<open>Number(s)\<close> for the texts the two patterns let through: an optional minus sign, decimal
  digits and an optional fraction.
\<close>

definition digit_val :: "char \<Rightarrow> nat" where
  "digit_val c = length (takeWhile (\<lambda>d. d \<noteq> c) digit_chars)"

definition nat_of_digits :: "string \<Rightarrow> nat" where
  "nat_of_digits ds = foldl (\<lambda>a c. 10 * a + digit_val c) 0 ds"

definition unsigned_Number :: "string \<Rightarrow> real" where
  "unsigned_Number s =
     (let ip = takeWhile (\<lambda>c. c \<noteq> CHR ''.'') s; fp = drop (length ip + 1) s
      in real (nat_of_digits ip) + real (nat_of_digits fp) / 10 ^ length fp)"

definition Number :: "string \<Rightarrow> real" where
  "Number s = (case s of CHR ''-'' # t \<Rightarrow> - unsigned_Number t | _ \<Rightarrow> unsigned_Number s)"

text \<open>\<open>extractBandwidth\<close>; \<open>None\<close> is NaN.\<close>

definition extractBandwidth :: "string \<Rightarrow> string \<Rightarrow> real option" where
  "extractBandwidth line units =
     (let s = trim line in
      if regex_test False numeric_re s then Some (Number s)
      else let matches = matchAll True bandwidth_re s s in
        if matches = [] then None
        else let caps = fst (snd (last matches)) in
          (case map_of caps 1 of
             None \<Rightarrow> None
           | Some v \<Rightarrow>
               let val = Number v;
                   prefix = (case map_of caps 2 of Some p \<Rightarrow> if p = [] then ''M'' else p | None \<Rightarrow> ''M'')
               in Some (toSelectedUnits val prefix units)))"

section \<open>gauge.js: the gauge presenter\<close>

text \<open>
  The needle widget is a library object; its fields that the script reads or writes are
  the scale maximum, the value handed to \<open>set\<close>, the animation speed and the static
  labels. The module keeps one such object (none while the canvas element is missing),
  the interval timer of the sweep (with the top of the sweep its callback closes over),
  the auto-stop timer and the flag \<open>hasRealValue\<close>.
\<close>

record gauge_obj =
  maxValue :: real
  needle :: real
  animationSpeed :: nat
  staticLabels :: "real list"
  fractionDigits :: nat

record gauge_module =
  gauge :: "gauge_obj option"
  sweepTimer :: "real option"
  sweepDir :: int
  sweepAutoStopTimer :: bool
  hasRealValue :: bool
  SWEEP_MAX_FRACTION :: real
  SWEEP_AUTO_STOP_MS :: real
  SWEEP_INTERVAL_MS :: real

definition NORMAL_ANIM_SPEED :: nat where
  "NORMAL_ANIM_SPEED = 32"

definition SWEEP_ANIM_SPEED :: nat where
  "SWEEP_ANIM_SPEED = 10"

definition gauge_set :: "real \<Rightarrow> gauge_module \<Rightarrow> gauge_module" where
  "gauge_set v g = g\<lparr>gauge := map_option (\<lambda>gb. gb\<lparr>needle := v\<rparr>) (gauge g)\<rparr>"

definition stopSweep :: "gauge_module \<Rightarrow> gauge_module" where
  "stopSweep g =
     g\<lparr>sweepTimer := None, sweepAutoStopTimer := False,
       gauge := map_option (\<lambda>gb. gb\<lparr>animationSpeed := NORMAL_ANIM_SPEED\<rparr>) (gauge g)\<rparr>"

definition clamp01 :: "real \<Rightarrow> real" where
  "clamp01 x = max 0 (min 1 x)"

definition startSweep :: "real \<Rightarrow> real \<Rightarrow> real \<Rightarrow> gauge_module \<Rightarrow> gauge_module" where
  "startSweep maxFraction intervalMs autoStopMs g0 =
     (let g = stopSweep g0 in
      case gauge g of
        None \<Rightarrow> g
      | Some gb \<Rightarrow>
          let gb1 = gb\<lparr>animationSpeed := SWEEP_ANIM_SPEED, needle := 0\<rparr>;
              frac = clamp01 maxFraction;
              sweepTop = maxValue gb1 * frac
          in g\<lparr>gauge := Some gb1, sweepDir := 1, sweepTimer := Some sweepTop,
               sweepAutoStopTimer := (autoStopMs > 0)\<rparr>)"

text \<open>The two timer callbacks of the sweep.\<close>

definition sweep_tick :: "gauge_module \<Rightarrow> gauge_module" where
  "sweep_tick g =
     (case (gauge g, sweepTimer g) of
        (Some gb, Some sweepTop) \<Rightarrow>
          (gauge_set (if sweepDir g > 0 then sweepTop else 0) g)\<lparr>sweepDir := sweepDir g * (- 1)\<rparr>
      | _ \<Rightarrow> g)"

definition sweep_auto_stop :: "gauge_module \<Rightarrow> gauge_module" where
  "sweep_auto_stop g = gauge_set 0 (stopSweep g)"

definition initGauge ::
  "bool \<Rightarrow> real \<Rightarrow> real \<Rightarrow> real \<Rightarrow> real \<Rightarrow> bool \<Rightarrow> gauge_module \<Rightarrow> gauge_module" where
  "initGauge doSweep initialMax sweepMaxFraction sweepAutoStopMs sweepIntervalMs has_target g0 =
     (let g1 = (stopSweep (g0\<lparr>SWEEP_MAX_FRACTION := sweepMaxFraction,
                                 SWEEP_AUTO_STOP_MS := sweepAutoStopMs,
                                 SWEEP_INTERVAL_MS := sweepIntervalMs\<rparr>))\<lparr>hasRealValue := False\<rparr>
      in if \<not> has_target then g1
         else let g2 = g1\<lparr>gauge := Some \<lparr>maxValue = initialMax, needle = 0,
                            animationSpeed = NORMAL_ANIM_SPEED, staticLabels = [],
                            fractionDigits = 0\<rparr>\<rparr>
              in if doSweep
                 then startSweep (SWEEP_MAX_FRACTION g2) (SWEEP_INTERVAL_MS g2) (SWEEP_AUTO_STOP_MS g2) g2
                 else g2)"

definition niceSteps :: "real list" where
  "niceSteps = [1, 2, 5]"

text \<open>\<open>Math.pow(10, Math.floor(Math.log10(newMax / 5)))\<close>.\<close>

definition gauge_magnitude :: "real \<Rightarrow> real" where
  "gauge_magnitude newMax = 10 powr (of_int \<lfloor>log 10 (newMax / 5)\<rfloor>)"

text \<open>The loop over \<open>niceSteps\<close>: the first step with fewer than 6 gradations, and the
  largest step when there is none.\<close>

definition gauge_step :: "real \<Rightarrow> real" where
  "gauge_step newMax =
     (let magnitude = gauge_magnitude newMax in
      case find (\<lambda>s. newMax / s < 6) (map (\<lambda>n. n * magnitude) niceSteps) of
        Some s \<Rightarrow> s
      | None \<Rightarrow> last niceSteps * magnitude)"

definition candidate_max :: "real \<Rightarrow> real" where
  "candidate_max v = (if v > 0 then v * 1.2 else 1)"

definition round_up_max :: "real \<Rightarrow> real" where
  "round_up_max newMax = of_int \<lceil>newMax / gauge_step newMax\<rceil> * gauge_step newMax"

text \<open>\<open>Math.round\<close>: the nearest integer, halves upwards. The body of the test
  \<open>value > gauge.maxValue * 0.8\<close> is \<open>expand_scale\<close>; the labels are \<open>i * step\<close> for
  \<open>i\<close> from 0 to \<open>numLabels\<close>.\<close>

definition Math_round :: "real \<Rightarrow> int" where
  "Math_round x = \<lfloor>x + 1 / 2\<rfloor>"

definition expand_scale :: "real \<Rightarrow> gauge_obj \<Rightarrow> gauge_obj" where
  "expand_scale v gb =
     (if v > maxValue gb * 0.8 then
        let newMax = candidate_max v;
            step = gauge_step newMax;
            mx = round_up_max newMax;
            numLabels = Math_round (mx / step)
        in gb\<lparr>maxValue := mx,
              staticLabels := map (\<lambda>i. of_int i * step) [0..numLabels],
              fractionDigits := (if step < 1 then 2 else 0)\<rparr>
      else gb)"

definition updateGauge :: "real \<Rightarrow> gauge_module \<Rightarrow> gauge_module" where
  "updateGauge v g0 =
     (if gauge g0 = None then g0
      else let g = stopSweep (g0\<lparr>hasRealValue := True\<rparr>)
           in g\<lparr>gauge := map_option (\<lambda>gb. (expand_scale v gb)\<lparr>needle := v\<rparr>) (gauge g)\<rparr>)"

definition resetGauge :: "gauge_module \<Rightarrow> gauge_module" where
  "resetGauge g = gauge_set 0 (stopSweep (g\<lparr>hasRealValue := False\<rparr>))"

definition beginPending :: "gauge_module \<Rightarrow> gauge_module" where
  "beginPending g =
     startSweep (SWEEP_MAX_FRACTION g) (SWEEP_INTERVAL_MS g) (SWEEP_AUTO_STOP_MS g)
       (g\<lparr>hasRealValue := False\<rparr>)"

text \<open>The module as it is loaded: no gauge object, no timers, the default sweep settings.\<close>

definition gauge_module0 :: gauge_module where
  "gauge_module0 =
     \<lparr>gauge = None, sweepTimer = None, sweepDir = 1, sweepAutoStopTimer = False,
      hasRealValue = False, SWEEP_MAX_FRACTION = 0.12, SWEEP_AUTO_STOP_MS = 2500,
      SWEEP_INTERVAL_MS = 700\<rparr>"

text \<open>The scale maximum of the module (0 while there is no gauge object), and the gauge
  after a sequence of samples.\<close>

definition max_of :: "gauge_module \<Rightarrow> real" where
  "max_of g = (case gauge g of Some gb \<Rightarrow> maxValue gb | None \<Rightarrow> 0)"

definition feed :: "gauge_module \<Rightarrow> real list \<Rightarrow> gauge_module" where
  "feed g vs = foldl (\<lambda>g v. updateGauge v g) g vs"

text \<open>
  The scale values the rounding produces: 5, 6, 8, 10, 12, 15, 20, ..., 50 times a power of
  ten. The initial maxima the scripts use (1, 10, 1000 and 1000000) are among them.
\<close>

definition nice_coeffs :: "real set" where
  "nice_coeffs = {5, 6, 8, 10, 12, 15, 20, 25, 30, 35, 40, 45, 50}"

definition nice_max :: "real \<Rightarrow> bool" where
  "nice_max M = (\<exists>k::int. \<exists>c. c \<in> nice_coeffs \<and> M = c * 10 powr (of_int k))"

text \<open>The gauge as \<open>initGauge\<close> leaves it with its default maximum of 10.\<close>

definition gauge10 :: gauge_module where
  "gauge10 = initGauge False 10 0.12 2500 700 True gauge_module0"

section \<open>runTest.js: the session controller\<close>

definition nl :: string where
  "nl = [CHR 0x0A]"

text \<open>The characters outside ASCII of the overlay texts, as their UTF-8 bytes.\<close>

definition bullet :: string where
  "bullet = [CHR 0xE2, CHR 0x80, CHR 0xA2]"

definition ellipsis :: string where
  "ellipsis = [CHR 0xE2, CHR 0x80, CHR 0xA6]"

definition en_dash :: string where
  "en_dash = [CHR 0xE2, CHR 0x80, CHR 0x93]"

definition a_umlaut :: string where
  "a_umlaut = [CHR 0xC3, CHR 0xA4]"

text \<open>
  \<open>Number.prototype.toFixed(2)\<close> for a number below \<open>10^21\<close>: the sign, then the nearest
  multiple of a hundredth (the larger one when two are equally near) in decimal.
\<close>

definition toFixed2 :: "real \<Rightarrow> string" where
  "toFixed2 x =
     (let n = nat \<lfloor>\<bar>x\<bar> * 100 + 1 / 2\<rfloor>;
          body = show_nat (n div 100) @ ''.'' @ [digit_chars ! (n div 10 mod 10), digit_chars ! (n mod 10)]
      in if x < 0 then CHR ''-'' # body else body)"

definition startsWith :: "string \<Rightarrow> string \<Rightarrow> bool" where
  "startsWith s p = (take (length p) s = p)"

text \<open>The pattern \<open>/^\d+(\.\d+)?[KMG]$/i\<close> of the bandwidth field.\<close>

definition bandwidth_field_re :: regex where
  "bandwidth_field_re =
     Seqs [Bol, digits_re, Opt (Group 1 (Seq (Cls ''.'') digits_re)), Cls ''KMG'', Eol]"

text \<open>The form values of \<open>state.js\<close>, as the input listeners of uiHandlers.js keep them.\<close>

record form_values =
  f_ip :: string
  f_port :: string
  f_streams :: string
  f_bandwidth :: string
  f_protocol :: string
  f_mode :: string
  f_units :: string
  f_iface :: string

text \<open>The JSON body of the request \<open>POST /run_iperf\<close>.\<close>

record post_body =
  b_protocol :: string
  b_mode :: string
  b_streams :: string
  b_target :: string
  b_bandwidth :: string
  b_port :: string
  b_units :: string
  b_iface :: string
  b_cid :: nat

text \<open>
  One click on Run creates one closure: the constants it read from the form, its variable
  \<open>eventSource\<close> (a reference to an EventSource object, or null), its inactivity timer
  (the time at which it fires, or null) and \<open>lastCmd\<close>; \<open>r_startPending\<close> says that the
  promise of the start request is still pending.
\<close>

record run_closure =
  r_units :: string
  r_mode :: string
  r_protocol :: string
  r_streams :: string
  r_eventSource :: "nat option"
  r_noDataTimer :: "nat option"
  r_lastCmd :: string
  r_startPending :: bool

text \<open>The text of the maximum readout is the template \<open>`${state.maxBandwidth} ${units}`\<close>;
  it is kept as the number and the unit (the digits JavaScript prints for a double are
  not modelled), or the dash of a starting run.\<close>

datatype max_text = MaxDash string | MaxNum real string

text \<open>
  The browser tab: the form and the aggregates of \<open>state.js\<close>, the texts of the page
  (the elements are taken to exist), the gauge module, the EventSource objects that are
  open (by number, in the order of their creation), the global \<open>window.__iperfES\<close>, the
  closures of the runs so far and the start requests sent.
\<close>

record tab =
  form :: form_values
  dom_iface :: string
  bandwidthSum :: real
  bandwidthCount :: nat
  maxBandwidth :: real
  resultText :: string
  statusText :: string
  avgText :: string
  maxText :: max_text
  runBtn_disabled :: bool
  overlay_shown :: bool
  overlay_text :: string
  overlay_close_shown :: bool
  gm :: gauge_module
  has_speedometer :: bool
  open_es :: "nat set"
  next_id :: nat
  window_iperfES :: "nat option"
  runs :: "nat \<rightharpoonup> run_closure"
  requests :: "post_body list"

definition showOverlay :: "string \<Rightarrow> bool \<Rightarrow> tab \<Rightarrow> tab" where
  "showOverlay text showClose t =
     t\<lparr>overlay_shown := True, overlay_text := text, overlay_close_shown := showClose\<rparr>"

definition hideOverlay :: "tab \<Rightarrow> tab" where
  "hideOverlay t = t\<lparr>overlay_shown := False, overlay_close_shown := False\<rparr>"

definition NO_DATA_MS :: "string \<Rightarrow> nat" where
  "NO_DATA_MS mode = (if mode = ''download'' then 45000 else 15000)"

definition RUN_START_TIMEOUT_MS :: "string \<Rightarrow> nat" where
  "RUN_START_TIMEOUT_MS mode = (if mode = ''download'' then 15000 else 8000)"

definition upd_run :: "nat \<Rightarrow> (run_closure \<Rightarrow> run_closure) \<Rightarrow> tab \<Rightarrow> tab" where
  "upd_run rid f t = t\<lparr>runs := (runs t)(rid := map_option f (runs t rid))\<rparr>"

definition stopNoDataTimer :: "nat \<Rightarrow> tab \<Rightarrow> tab" where
  "stopNoDataTimer rid t = upd_run rid (\<lambda>r. r\<lparr>r_noDataTimer := None\<rparr>) t"

text \<open>\<open>armNoDataTimer\<close> at the time \<open>now\<close>: the old timer is cleared and a new one is set
  to fire \<open>NO_DATA_MS\<close> later.\<close>

definition armNoDataTimer :: "nat \<Rightarrow> nat \<Rightarrow> tab \<Rightarrow> tab" where
  "armNoDataTimer rid now t =
     upd_run rid (\<lambda>r. r\<lparr>r_noDataTimer := Some (now + NO_DATA_MS (r_mode r))\<rparr>)
       (stopNoDataTimer rid t)"

text \<open>\<open>es?.close()\<close> on a reference.\<close>

definition close_es :: "nat option \<Rightarrow> tab \<Rightarrow> tab" where
  "close_es ref t = (case ref of None \<Rightarrow> t | Some i \<Rightarrow> t\<lparr>open_es := open_es t - {i}\<rparr>)"

definition cleanup :: "nat \<Rightarrow> bool \<Rightarrow> bool \<Rightarrow> tab \<Rightarrow> tab" where
  "cleanup rid reset closeStream t0 =
     (let t1 = stopNoDataTimer rid (hideOverlay t0);
          t2 = t1\<lparr>runBtn_disabled := False\<rparr>;
          t3 = (if reset then t2\<lparr>gm := resetGauge (gm t2)\<rparr> else t2)
      in if closeStream then
           let t4 = close_es (case runs t3 rid of Some r \<Rightarrow> r_eventSource r | None \<Rightarrow> None) t3;
               t5 = upd_run rid (\<lambda>r. r\<lparr>r_eventSource := None\<rparr>) t4;
               t6 = close_es (window_iperfES t5) t5
           in t6\<lparr>window_iperfES := None\<rparr>
         else t3)"

text \<open>The callback of the inactivity timer.\<close>

definition no_data_timeout :: "nat \<Rightarrow> tab \<Rightarrow> tab" where
  "no_data_timeout rid t0 =
     (let lastCmd = (case runs t0 rid of Some r \<Rightarrow> r_lastCmd r | None \<Rightarrow> []);
          t1 = t0\<lparr>statusText := ''Error''\<rparr>;
          t2 = t1\<lparr>resultText := resultText t1 @ ''Timeout: Keine Daten vom Stream erhalten.'' @ nl\<rparr>;
          t3 = (if lastCmd \<noteq> [] then t2\<lparr>resultText := resultText t2 @ ''Letzter CMD: '' @ lastCmd @ nl\<rparr>
                else t2)
      in cleanup rid True True t3)"

text \<open>The message listener after the timer has been re-armed: \<open>s\<close> is the trimmed data.\<close>

definition running_overlay :: "real \<Rightarrow> run_closure \<Rightarrow> string" where
  "running_overlay bandwidthValue r =
     ''Running: '' @ toFixed2 bandwidthValue @ '' '' @ r_units r @ nl @
     ''('' @ toUpperCase (r_protocol r) @ '' '' @ bullet @ '' '' @ r_mode r @ '' '' @ bullet @ '' '' @
     r_streams r @ '' Streams)''"

definition handle_payload :: "nat \<Rightarrow> run_closure \<Rightarrow> string \<Rightarrow> tab \<Rightarrow> tab" where
  "handle_payload rid r s t =
     (if s = [] \<or> s = ''ping'' then t
      else if s = ''-1'' then
        let avg = (if bandwidthCount t > 0
                   then toFixed2 (bandwidthSum t / real (bandwidthCount t)) else ''0.00'')
        in cleanup rid False True
             (t\<lparr>statusText := ''Complete'', avgText := avg @ '' '' @ r_units r,
                maxText := MaxNum (maxBandwidth t) (r_units r)\<rparr>)
      else if s = ''server is busy'' then
        cleanup rid True True
          (t\<lparr>statusText := ''Server is Busy'', resultText := resultText t @ ''server is busy'' @ nl\<rparr>)
      else if startsWith s ''CMD:'' \<or> startsWith s ''WORKER:'' \<or> startsWith s ''LOGFILE:'' then
        t\<lparr>resultText := resultText t @ s @ nl\<rparr>
      else
        (case extractBandwidth s (r_units r) of
           None \<Rightarrow> t\<lparr>resultText := resultText t @ s @ nl\<rparr>
         | Some bandwidthValue \<Rightarrow>
             showOverlay (running_overlay bandwidthValue r) False
               (t\<lparr>gm := updateGauge bandwidthValue (gm t),
                   bandwidthSum := bandwidthSum t + bandwidthValue,
                   bandwidthCount := bandwidthCount t + 1,
                   maxBandwidth := (if bandwidthValue > maxBandwidth t then bandwidthValue
                                    else maxBandwidth t),
                   statusText := ''Running'',
                   resultText := resultText t @ s @ nl\<rparr>)))"

text \<open>
  The listeners of an EventSource. The browser delivers an event only to a source that is
  not closed; an event for a closed source, or for a run that does not exist, changes
  nothing.
\<close>

definition on_message :: "nat \<Rightarrow> string \<Rightarrow> nat \<Rightarrow> tab \<Rightarrow> tab" where
  "on_message rid data now t =
     (case runs t rid of
        None \<Rightarrow> t
      | Some r \<Rightarrow>
          if rid \<notin> open_es t then t
          else handle_payload rid r (trim data) (armNoDataTimer rid now t))"

definition on_open :: "nat \<Rightarrow> nat \<Rightarrow> tab \<Rightarrow> tab" where
  "on_open rid now t =
     (if runs t rid = None \<or> rid \<notin> open_es t then t else armNoDataTimer rid now t)"

text \<open>An error event; \<open>isClosed\<close> says that the browser has given up and closed the source
  (\<open>readyState\<close> is \<open>CLOSED\<close>), otherwise it is reconnecting.\<close>

definition on_error :: "nat \<Rightarrow> bool \<Rightarrow> nat \<Rightarrow> tab \<Rightarrow> tab" where
  "on_error rid isClosed now t =
     (if runs t rid = None \<or> rid \<notin> open_es t then t
      else let t1 = (if isClosed then t\<lparr>open_es := open_es t - {rid}\<rparr> else t);
               t2 = armNoDataTimer rid now t1
           in if isClosed then
                cleanup rid True True
                  (t2\<lparr>statusText := ''Error'',
                      resultText := resultText t2 @ ''SSE connection closed.'' @ nl\<rparr>)
              else t2)"

text \<open>The click on Run, up to the first \<open>await\<close>: everything but the answer to the start
  request. The new closure and the new EventSource get the next free number.\<close>

definition start_overlay_text :: string where
  "start_overlay_text = ''Starte iPerf'' @ ellipsis"

definition on_click :: "nat \<Rightarrow> tab \<Rightarrow> tab" where
  "on_click now t0 =
     (let fv = form t0;
          target = f_ip fv; port = f_port fv; streams = f_streams fv;
          bandwidth0 = trim (f_bandwidth fv);
          protocol = f_protocol fv; mode = f_mode fv; units = f_units fv;
          iface = (if f_iface fv \<noteq> [] then f_iface fv else dom_iface t0);
          bandwidth = (if \<not> regex_test True bandwidth_field_re bandwidth0 then ''0'' else bandwidth0);
          t1 = t0\<lparr>resultText := ''Running iPerf3...'' @ nl,
                  bandwidthSum := 0, bandwidthCount := 0, maxBandwidth := 0,
                  statusText := ''Starting'',
                  avgText := ''- '' @ units, maxText := MaxDash units\<rparr>;
          initialMax = (if units = ''Gbps'' then 1 else if units = ''Kbps'' then 1000000 else 1000);
          t2 = t1\<lparr>gm := initGauge True initialMax 0.12 2500 700 (has_speedometer t1) (gm t1)\<rparr>;
          t3 = showOverlay start_overlay_text False (t2\<lparr>runBtn_disabled := True\<rparr>);
          rid = next_id t3;
          t4 = t3\<lparr>next_id := rid + 1,
                  runs := (runs t3)(rid \<mapsto>
                    \<lparr>r_units = units, r_mode = mode, r_protocol = protocol, r_streams = streams,
                     r_eventSource = None, r_noDataTimer = None, r_lastCmd = [],
                     r_startPending = False\<rparr>)\<rparr>;
          t5 = (close_es (window_iperfES t4) t4)\<lparr>window_iperfES := None\<rparr>;
          t6 = (upd_run rid (\<lambda>r. r\<lparr>r_eventSource := Some rid\<rparr>) t5)
                 \<lparr>open_es := insert rid (open_es t5), window_iperfES := Some rid\<rparr>;
          t7 = armNoDataTimer rid now t6;
          t8 = (upd_run rid (\<lambda>r. r\<lparr>r_startPending := True\<rparr>) t7)
                 \<lparr>requests := requests t7 @
                    [\<lparr>b_protocol = protocol, b_mode = mode, b_streams = streams, b_target = target,
                      b_bandwidth = bandwidth, b_port = port, b_units = units, b_iface = iface,
                      b_cid = rid\<rparr>]\<rparr>
      in t8)"

text \<open>The answer to the start request: a success with the command line it carries, a
  response that is not ok (with the \<open>error\<close> of its body and its status text), or a
  rejected promise (no connection, or the abort after \<open>RUN_START_TIMEOUT_MS\<close>).\<close>

definition connected_overlay :: "run_closure \<Rightarrow> string" where
  "connected_overlay r =
     ''Verbunden '' @ en_dash @ '' Test l'' @ a_umlaut @ ''uft'' @ ellipsis @ nl @
     ''('' @ toUpperCase (r_protocol r) @ '' '' @ bullet @ '' '' @ r_mode r @ '' '' @ bullet @ '' '' @
     r_streams r @ '' Streams)''"

definition on_start_ok :: "nat \<Rightarrow> string \<Rightarrow> tab \<Rightarrow> tab" where
  "on_start_ok rid cmd t0 =
     (case runs t0 rid of
        None \<Rightarrow> t0
      | Some r \<Rightarrow>
          if \<not> r_startPending r then t0
          else let lastCmd = trim cmd;
                   t1 = upd_run rid (\<lambda>r. r\<lparr>r_startPending := False, r_lastCmd := lastCmd\<rparr>) t0;
                   t2 = (if lastCmd \<noteq> [] then t1\<lparr>resultText := resultText t1 @ ''CMD: '' @ lastCmd @ nl\<rparr>
                         else t1)
               in showOverlay (connected_overlay r) False t2)"

definition catch_run_error :: "nat \<Rightarrow> string \<Rightarrow> tab \<Rightarrow> tab" where
  "catch_run_error rid msg t0 =
     (let t1 = t0\<lparr>resultText := resultText t0 @ msg @ nl, statusText := ''Error''\<rparr>
      in showOverlay (''Fehler:'' @ nl @ msg) True (cleanup rid True True t1))"

definition on_start_rejected :: "nat \<Rightarrow> string \<Rightarrow> tab \<Rightarrow> tab" where
  "on_start_rejected rid msg t0 =
     (case runs t0 rid of
        None \<Rightarrow> t0
      | Some r \<Rightarrow>
          if \<not> r_startPending r then t0
          else catch_run_error rid msg (upd_run rid (\<lambda>r. r\<lparr>r_startPending := False\<rparr>) t0))"

definition on_start_not_ok :: "nat \<Rightarrow> string \<Rightarrow> string \<Rightarrow> tab \<Rightarrow> tab" where
  "on_start_not_ok rid err statusText' t0 =
     (case runs t0 rid of
        None \<Rightarrow> t0
      | Some r \<Rightarrow>
          if \<not> r_startPending r then t0
          else let msg = (if err \<noteq> [] then err else if statusText' \<noteq> [] then statusText'
                          else ''Error starting iPerf3.'');
                   t1 = cleanup rid True True (upd_run rid (\<lambda>r. r\<lparr>r_startPending := False\<rparr>) t0);
                   t2 = showOverlay (''Fehler beim Start:'' @ nl @ msg) True t1
               in catch_run_error rid msg t2)"

text \<open>The timer fires only while it is set and its time has come.\<close>

definition on_no_data_timeout :: "nat \<Rightarrow> nat \<Rightarrow> tab \<Rightarrow> tab" where
  "on_no_data_timeout rid now t =
     (case runs t rid of
        None \<Rightarrow> t
      | Some r \<Rightarrow>
          (case r_noDataTimer r of
             None \<Rightarrow> t
           | Some due \<Rightarrow> if now < due then t else no_data_timeout rid t))"

text \<open>Everything that can happen to the tab, one event at a time (the page is
  single-threaded): input into the form, a click on Run, the events of an EventSource, the
  inactivity timer, the answer to a start request, the close button of the overlay and the
  two timers of the gauge sweep.\<close>

datatype event =
    FormInput form_values
  | Click nat
  | EsOpen nat nat
  | EsMessage nat string nat
  | EsError nat bool nat
  | NoDataTimeout nat nat
  | StartOk nat string
  | StartNotOk nat string string
  | StartRejected nat string
  | OverlayClose
  | SweepTick
  | SweepAutoStop

fun step :: "tab \<Rightarrow> event \<Rightarrow> tab" where
  "step t (FormInput fv) = t\<lparr>form := fv\<rparr>"
| "step t (Click now) = on_click now t"
| "step t (EsOpen rid now) = on_open rid now t"
| "step t (EsMessage rid data now) = on_message rid data now t"
| "step t (EsError rid isClosed now) = on_error rid isClosed now t"
| "step t (NoDataTimeout rid now) = on_no_data_timeout rid now t"
| "step t (StartOk rid cmd) = on_start_ok rid cmd t"
| "step t (StartNotOk rid err st) = on_start_not_ok rid err st t"
| "step t (StartRejected rid msg) = on_start_rejected rid msg t"
| "step t OverlayClose = hideOverlay t"
| "step t SweepTick = (if sweepTimer (gm t) = None then t else t\<lparr>gm := sweep_tick (gm t)\<rparr>)"
| "step t SweepAutoStop = (if sweepAutoStopTimer (gm t) then t\<lparr>gm := sweep_auto_stop (gm t)\<rparr> else t)"

definition run_events :: "tab \<Rightarrow> event list \<Rightarrow> tab" where
  "run_events t es = foldl step t es"

text \<open>A freshly loaded page: no run yet, no EventSource, and the gauge as main.js
  initialises it. The texts of the page and the form are those of an example.\<close>

definition tab0 :: tab where
  "tab0 =
     \<lparr>form = \<lparr>f_ip = ''192.168.10.2'', f_port = ''5201'', f_streams = ''1'', f_bandwidth = ''10M'',
              f_protocol = ''tcp'', f_mode = ''download'', f_units = ''Mbps'', f_iface = ''eth0''\<rparr>,
      dom_iface = [],
      bandwidthSum = 0, bandwidthCount = 0, maxBandwidth = 0,
      resultText = [], statusText = [], avgText = [], maxText = MaxDash [],
      runBtn_disabled = False,
      overlay_shown = False, overlay_text = [], overlay_close_shown = False,
      gm = initGauge False 1000 0.12 2500 700 True gauge_module0,
      has_speedometer = True,
      open_es = {}, next_id = 0, window_iperfES = None,
      runs = Map.empty, requests = []\<rparr>"

text \<open>What the claim about connections says: every open EventSource is the one that
  \<open>window.__iperfES\<close> refers to, so at most one is open.\<close>

definition one_connection :: "tab \<Rightarrow> bool" where
  "one_connection t = (open_es t \<subseteq> set_option (window_iperfES t))"

text \<open>The numbers of the EventSource objects in use are below the next free number.\<close>

definition ids_fresh :: "tab \<Rightarrow> bool" where
  "ids_fresh t = (open_es t \<union> set_option (window_iperfES t) \<subseteq> {..<next_id t})"

text \<open>The connection of a run is released: no EventSource is open, and neither
  \<open>window.__iperfES\<close> nor the run's own variable refers to one.\<close>

definition conn_released :: "nat \<Rightarrow> tab \<Rightarrow> bool" where
  "conn_released rid t =
     (open_es t = {} \<and> window_iperfES t = None \<and>
      map_option r_eventSource (runs t rid) = Some None)"

text \<open>The closure of the first run on the example page.\<close>

definition run0 :: run_closure where
  "run0 = \<lparr>r_units = ''Mbps'', r_mode = ''download'', r_protocol = ''tcp'', r_streams = ''1'',
           r_eventSource = Some 0, r_noDataTimer = Some 45000, r_lastCmd = [],
           r_startPending = True\<rparr>"

text \<open>Two texts agree up to case (always, or only under the flag \<open>i\<close>).\<close>

definition ci_eq :: "bool \<Rightarrow> string \<Rightarrow> string \<Rightarrow> bool" where
  "ci_eq ic x w = (map (canon ic) x = map (canon ic) w)"

text \<open>The text \<open>s\<close> contains the word \<open>w\<close> somewhere, in any mix of upper and lower case.\<close>

definition contains_ci :: "string \<Rightarrow> string \<Rightarrow> bool" where
  "contains_ci w s = (\<exists>p x q. s = p @ x @ q \<and> map upper_char x = map upper_char w)"

text \<open>A character is in a class (under the flag \<open>i\<close>, up to case).\<close>

definition cls_match :: "bool \<Rightarrow> char list \<Rightarrow> char \<Rightarrow> bool" where
  "cls_match ic cs x = (canon ic x \<in> set (map (canon ic) cs))"



section \<open>Properties of the matcher\<close>

lemma canon_True [simp]: "canon True = upper_char"
  by (rule ext) (simp add: canon_def)

lemma ms_Lit:
  "ms ic n (Lit w) (c, s) =
     (if length w \<le> length s \<and> ci_eq ic (take (length w) s) w then [(c, drop (length w) s)] else [])"
proof (induction w arbitrary: s)
  case Nil
  then show ?case by (simp add: ci_eq_def)
next
  case (Cons a w)
  show ?case
  proof (cases s)
    case Nil
    then show ?thesis by simp
  next
    case (Cons x xs)
    then show ?thesis using Cons.IH [of xs] by (auto simp: ci_eq_def)
  qed
qed

lemma match_at_None_iff: "(match_at ic r s0 t = None) = (ms ic (length s0) r ([], t) = [])"
  by (simp add: match_at_def split: list.splits)

text \<open>\<open>exec\<close> succeeds exactly when the pattern matches at the start of some suffix.\<close>

lemma exec_Some_iff:
  "(exec ic r s0 rest \<noteq> None) = (\<exists>p t. rest = p @ t \<and> match_at ic r s0 t \<noteq> None)"
proof (induction rest)
  case Nil
  then show ?case by (auto split: option.splits)
next
  case (Cons x rest)
  show ?case
  proof (cases "match_at ic r s0 (x # rest)")
    case None
    have "(\<exists>p t. x # rest = p @ t \<and> match_at ic r s0 t \<noteq> None)
        = (\<exists>p t. rest = p @ t \<and> match_at ic r s0 t \<noteq> None)"
    proof
      assume "\<exists>p t. x # rest = p @ t \<and> match_at ic r s0 t \<noteq> None"
      then obtain p t where pt: "x # rest = p @ t" "match_at ic r s0 t \<noteq> None" by blast
      with None have "p \<noteq> []" by auto
      then obtain p' where "p = x # p'" using pt(1) by (cases p) auto
      with pt show "\<exists>p t. rest = p @ t \<and> match_at ic r s0 t \<noteq> None" by auto
    next
      assume "\<exists>p t. rest = p @ t \<and> match_at ic r s0 t \<noteq> None"
      then obtain p t where "rest = p @ t" "match_at ic r s0 t \<noteq> None" by blast
      then have "x # rest = (x # p) @ t" by simp
      then show "\<exists>p t. x # rest = p @ t \<and> match_at ic r s0 t \<noteq> None"
        using \<open>match_at ic r s0 t \<noteq> None\<close> by blast
    qed
    with None Cons.IH show ?thesis by simp
  next
    case (Some m)
    then have "x # rest = [] @ (x # rest) \<and> match_at ic r s0 (x # rest) \<noteq> None" by simp
    then have "\<exists>p t. x # rest = p @ t \<and> match_at ic r s0 t \<noteq> None" by blast
    with Some show ?thesis by simp
  qed
qed

lemma lit_match_iff:
  "(ms True n (Lit w) ([], t) \<noteq> []) = (\<exists>x q. t = x @ q \<and> map upper_char x = map upper_char w)"
proof
  assume "ms True n (Lit w) ([], t) \<noteq> []"
  then have h: "length w \<le> length t" "map upper_char (take (length w) t) = map upper_char w"
    by (auto simp: ms_Lit ci_eq_def split: if_splits)
  have "t = take (length w) t @ drop (length w) t" by simp
  with h(2) show "\<exists>x q. t = x @ q \<and> map upper_char x = map upper_char w" by blast
next
  assume "\<exists>x q. t = x @ q \<and> map upper_char x = map upper_char w"
  then obtain x q where xq: "t = x @ q" "map upper_char x = map upper_char w" by blast
  from xq(2) have "length x = length w" by (metis length_map)
  with xq show "ms True n (Lit w) ([], t) \<noteq> []"
    by (simp add: ms_Lit ci_eq_def)
qed











lemma in_ms_Lit:
  "((c', s') \<in> set (ms ic n (Lit w) (c, s))) = (\<exists>x. s = x @ s' \<and> c' = c \<and> ci_eq ic x w)"
proof
  assume "(c', s') \<in> set (ms ic n (Lit w) (c, s))"
  then have a: "length w \<le> length s" "ci_eq ic (take (length w) s) w" "c' = c" "s' = drop (length w) s"
    by (auto simp: ms_Lit split: if_splits)
  then have "s = take (length w) s @ s' \<and> c' = c \<and> ci_eq ic (take (length w) s) w" by simp
  then show "\<exists>x. s = x @ s' \<and> c' = c \<and> ci_eq ic x w" by blast
next
  assume "\<exists>x. s = x @ s' \<and> c' = c \<and> ci_eq ic x w"
  then obtain x where x: "s = x @ s'" "c' = c" "ci_eq ic x w" by blast
  from x(3) have l: "length x = length w" unfolding ci_eq_def by (metis length_map)
  with x show "(c', s') \<in> set (ms ic n (Lit w) (c, s))" by (simp add: ms_Lit)
qed


lemma upper_char_lower: "x \<in> set lower_letters \<Longrightarrow> upper_char x \<in> set upper_letters"
  by (auto simp: upper_char_def lower_letters_def upper_letters_def)

lemma upper_char_other: "x \<notin> set lower_letters \<Longrightarrow> upper_char x = x"
  by (simp add: upper_char_def lower_letters_def upper_letters_def)

lemma upper_char_not_lower: "upper_char x \<notin> set lower_letters"
proof (cases "x \<in> set lower_letters")
  case True
  from upper_char_lower [OF this] show ?thesis
    by (auto simp: lower_letters_def upper_letters_def)
next
  case False
  then show ?thesis by (simp add: upper_char_other)
qed

text \<open>A character that is no letter matches, under the flag \<open>i\<close> too, only itself.\<close>

lemma canon_eq_nonletter:
  assumes "d \<notin> set lower_letters" "d \<notin> set upper_letters"
  shows "(canon ic x = canon ic d) = (x = d)"
proof (cases ic)
  case False
  then show ?thesis by (simp add: canon_def)
next
  case True
  have d: "upper_char d = d" using assms(1) by (rule upper_char_other)
  show ?thesis
  proof (cases "x \<in> set lower_letters")
    case l: True
    from upper_char_lower [OF l] assms(2) have "upper_char x \<noteq> d" by auto
    moreover from l assms(1) have "x \<noteq> d" by auto
    ultimately show ?thesis using True d by simp
  next
    case False
    then show ?thesis using True d by (simp add: upper_char_other)
  qed
qed

lemma cls_match_nonletters:
  assumes "set cs \<inter> (set lower_letters \<union> set upper_letters) = {}"
  shows "cls_match ic cs x = (x \<in> set cs)"
proof -
  have "(canon ic x = canon ic d) = (x = d)" if "d \<in> set cs" for d
    using that assms by (intro canon_eq_nonletter) auto
  then show ?thesis by (auto simp: cls_match_def)
qed

lemma cls_match_digits [simp]: "cls_match ic digit_chars x = (x \<in> set digit_chars)"
  by (rule cls_match_nonletters) (simp add: digit_chars_def lower_letters_def upper_letters_def)

lemma cls_match_ws [simp]: "cls_match ic ws_chars x = (x \<in> set ws_chars)"
  by (rule cls_match_nonletters) (simp add: ws_chars_def lower_letters_def upper_letters_def)

lemma cls_match_dot [simp]: "cls_match ic ''.'' x = (x = CHR ''.'')"
  using cls_match_nonletters [of "''.''" ic x] by (simp add: lower_letters_def upper_letters_def)

lemma cls_match_minus [simp]: "cls_match ic ''-'' x = (x = CHR ''-'')"
  using cls_match_nonletters [of "''-''" ic x] by (simp add: lower_letters_def upper_letters_def)

lemma cls_match_KMG [simp]: "cls_match True ''KMG'' x = (x \<in> set ''KMGkmg'')"
proof (cases "x \<in> set lower_letters")
  case True
  then show ?thesis
    by (auto simp: cls_match_def upper_char_def lower_letters_def upper_letters_def)
next
  case False
  then have "upper_char x = x" by (rule upper_char_other)
  moreover have "upper_char CHR ''K'' = CHR ''K''" "upper_char CHR ''M'' = CHR ''M''"
    "upper_char CHR ''G'' = CHR ''G''"
    by (simp_all add: upper_char_def lower_letters_def upper_letters_def)
  ultimately show ?thesis using False by (auto simp: cls_match_def lower_letters_def)
qed


lemma cls_match_is_digit [simp]: "cls_match ic digit_chars = is_digit"
  by (rule ext) (simp add: is_digit_def)






section \<open>Properties of the statistics cards\<close>

lemma linkDown_iff:
  "linkDown lt = (contains_ci ''down'' lt \<or> contains_ci ''disconnected'' lt \<or> contains_ci ''no'' lt)"
proof -
  have "linkDown lt = (\<exists>p t. lt = p @ t \<and> ms True (length lt) link_down_re ([], t) \<noteq> [])"
    unfolding linkDown_def regex_test_def exec_Some_iff
    by (simp only: match_at_None_iff)
  also have "\<dots> = (\<exists>p t. lt = p @ t \<and>
       (ms True (length lt) (Lit ''down'') ([], t) \<noteq> [] \<or>
        ms True (length lt) (Lit ''disconnected'') ([], t) \<noteq> [] \<or>
        ms True (length lt) (Lit ''no'') ([], t) \<noteq> []))"
    unfolding link_down_re_def by (simp only: ms.simps append_is_Nil_conv de_Morgan_conj)
  also have "\<dots> = (contains_ci ''down'' lt \<or> contains_ci ''disconnected'' lt \<or> contains_ci ''no'' lt)"
    unfolding lit_match_iff contains_ci_def by blast
  finally show ?thesis .
qed

lemma contains_ciI: "map upper_char x = map upper_char w \<Longrightarrow> contains_ci w (p @ x @ q)"
  unfolding contains_ci_def by blast

lemma linkDown_down: "linkDown ''Link down''"
proof -
  have "contains_ci ''down'' (''Link '' @ ''down'' @ [])" by (rule contains_ciI) simp
  then show ?thesis by (simp add: linkDown_iff)
qed

lemma linkDown_Unknown: "linkDown ''Unknown''"
proof -
  have "contains_ci ''no'' (''Unk'' @ ''no'' @ ''wn'')" by (rule contains_ciI) simp
  then show ?thesis by (simp add: linkDown_iff)
qed

lemma not_linkDown_up: "\<not> linkDown ''up''"
  by code_simp

lemma show_int_small: "show_int 2 = ''2''" "show_int 3 = ''3''" "show_int 7 = ''7''"
  by (simp_all add: show_int_def show_nat.simps digit_chars_def)

lemma contains_ci_iff_test: "contains_ci w s = regex_test True (Lit w) s"
  unfolding regex_test_def exec_Some_iff match_at_None_iff lit_match_iff contains_ci_def
  by blast

text \<open>The rendered text of a link that is up, with a speed the driver does not know.\<close>

lemma render_up_unknown:
  "renderLinkInfo (Some \<lparr>l_ok = Some True, l_link = ''up'', l_speed = ''Unknown!''\<rparr>) =
     ''up'' @ link_sep @ ''Unknown!''"
  by (simp add: renderLinkInfo_def trim_def is_ws_def ws_chars_def Let_def)

lemma up_unknown_words:
  "\<not> contains_ci ''down'' (''up'' @ link_sep @ ''Unknown!'')"
  "\<not> contains_ci ''disconnected'' (''up'' @ link_sep @ ''Unknown!'')"
  "contains_ci ''no'' (''up'' @ link_sep @ ''Unknown!'')"
  unfolding contains_ci_iff_test by code_simp+

text \<open>
  C2 as stated fails for a link that is reported up, neither down nor disconnected, whose
  text contains the letters "no": with the link "up" and the speed "Unknown!" the verdict
  is "BAD (link)", with all deltas zero (where the claim gives "ok") and with a positive CRC
  delta (where it gives the CRC verdict).
\<close>

theorem link_up_unknown_counterexample:
  "\<not> contains_ci ''down''
      (renderLinkInfo (Some \<lparr>l_ok = Some True, l_link = ''up'', l_speed = ''Unknown!''\<rparr>)) \<and>
   \<not> contains_ci ''disconnected''
      (renderLinkInfo (Some \<lparr>l_ok = Some True, l_link = ''up'', l_speed = ''Unknown!''\<rparr>)) \<and>
   computeQuality 0 0 0
      (renderLinkInfo (Some \<lparr>l_ok = Some True, l_link = ''up'', l_speed = ''Unknown!''\<rparr>)) =
     \<lparr>label = ''BAD (link)'', cls = ''bad''\<rparr> \<and>
   computeQuality 0 0 2
      (renderLinkInfo (Some \<lparr>l_ok = Some True, l_link = ''up'', l_speed = ''Unknown!''\<rparr>)) =
     \<lparr>label = ''BAD (link)'', cls = ''bad''\<rparr>"
  using up_unknown_words
  by (simp add: render_up_unknown computeQuality_def Let_def linkDown_iff)

text \<open>
  C2 (as the code has it). The quality verdict follows a fixed precedence. A link text that
  contains "down", "disconnected" or "no" anywhere, in any mix of upper and lower case (the
  pattern \<open>/down|disconnected|no/i\<close>), gives "BAD (link)" whatever the deltas are; otherwise
  a positive CRC/FCS delta gives the CRC verdict; otherwise the score, packet errors plus
  drops, decides: 0 is "OK", 1 to 5 is "WARN", more than 5 is "BAD".
\<close>

theorem computeQuality_pattern_precedence:
  assumes "down = (contains_ci ''down'' lt \<or> contains_ci ''disconnected'' lt \<or> contains_ci ''no'' lt)"
  shows "(down \<longrightarrow> computeQuality pe dr crc lt = \<lparr>label = ''BAD (link)'', cls = ''bad''\<rparr>) \<and>
   (\<not> down \<and> 0 < crc \<longrightarrow>
      computeQuality pe dr crc lt = \<lparr>label = ''BAD (CRC +'' @ show_int crc @ '')'', cls = ''bad''\<rparr>) \<and>
   (\<not> down \<and> crc \<le> 0 \<and> pe + dr = 0 \<longrightarrow>
      computeQuality pe dr crc lt = \<lparr>label = ''OK'', cls = ''ok''\<rparr>) \<and>
   (\<not> down \<and> crc \<le> 0 \<and> 1 \<le> pe + dr \<and> pe + dr \<le> 5 \<longrightarrow>
      computeQuality pe dr crc lt = \<lparr>label = ''WARN (+'' @ show_int (pe + dr) @ '')'', cls = ''warn''\<rparr>) \<and>
   (\<not> down \<and> crc \<le> 0 \<and> 5 < pe + dr \<longrightarrow>
      computeQuality pe dr crc lt = \<lparr>label = ''BAD (+'' @ show_int (pe + dr) @ '')'', cls = ''bad''\<rparr>)"
proof -
  have "down = linkDown lt" by (simp add: assms linkDown_iff)
  then show ?thesis by (simp add: computeQuality_def Let_def)
qed

lemma up_words:
  "\<not> contains_ci ''down'' ''up''" "\<not> contains_ci ''disconnected'' ''up''" "\<not> contains_ci ''no'' ''up''"
  "contains_ci ''down'' ''Link down''"
  unfolding contains_ci_iff_test by code_simp+

theorem computeQuality_pattern_precedence_witness:
  "computeQuality 9 9 9 ''Link down'' = \<lparr>label = ''BAD (link)'', cls = ''bad''\<rparr> \<and>
   computeQuality 0 0 0 ''Link down'' = \<lparr>label = ''BAD (link)'', cls = ''bad''\<rparr> \<and>
   computeQuality 1 0 2 ''up'' = \<lparr>label = ''BAD (CRC +2)'', cls = ''bad''\<rparr> \<and>
   computeQuality 0 0 0 ''up'' = \<lparr>label = ''OK'', cls = ''ok''\<rparr> \<and>
   computeQuality 1 2 0 ''up'' = \<lparr>label = ''WARN (+3)'', cls = ''warn''\<rparr> \<and>
   computeQuality 3 4 0 ''up'' = \<lparr>label = ''BAD (+7)'', cls = ''bad''\<rparr>"
  using computeQuality_pattern_precedence [OF refl, of "''Link down''" 9 9 9]
    computeQuality_pattern_precedence [OF refl, of "''Link down''" 0 0 0]
    computeQuality_pattern_precedence [OF refl, of "''up''" 1 0 2]
    computeQuality_pattern_precedence [OF refl, of "''up''" 0 0 0]
    computeQuality_pattern_precedence [OF refl, of "''up''" 1 2 0]
    computeQuality_pattern_precedence [OF refl, of "''up''" 3 4 0]
    up_words show_int_small
  by simp

text \<open>
  C6 (the code at the input where it leaves the claim). The CRC/FCS count is the sum over
  six counter names, but only two of them are asked for when the sum is not positive: a
  snapshot whose only CRC counter is the alias \<open>crc_errors\<close>, at zero, is shown as "n/a",
  while the same zero under \<open>rx_crc_errors\<close> is shown as "0".
\<close>

theorem crc_alias_zero_shown_as_na:
  "''crc_errors'' \<in> set crc_keys \<and>
   crcDelta_text (updateStatsCards \<lparr>s_link = None, s_delta = Some [''crc_errors'' \<mapsto> JNum 0]\<rparr>) = ''n/a'' \<and>
   crcDelta_text (updateStatsCards \<lparr>s_link = None, s_delta = Some [''rx_crc_errors'' \<mapsto> JNum 0]\<rparr>) = ''0''"
  by (simp add: updateStatsCards_def crc_keys_def Let_def)

text \<open>
  C10. The verdict is "BAD (link)" exactly when the link text matches
  \<open>/down|disconnected|no/i\<close>, whatever the error, drop and CRC deltas are, and the pattern
  matches exactly the texts that contain "down", "disconnected" or "no" somewhere, in any
  case, also inside another word. The statistics cards apply this to the text that
  \<open>renderLinkInfo\<close> builds from the link state and speed.
\<close>

theorem bad_link_iff_pattern:
  "(label (computeQuality pe dr crc lt) = ''BAD (link)'') = regex_test True link_down_re lt \<and>
   regex_test True link_down_re lt =
     (contains_ci ''down'' lt \<or> contains_ci ''disconnected'' lt \<or> contains_ci ''no'' lt) \<and>
   (label (qualityBadge (updateStatsCards st)) = ''BAD (link)'') =
     regex_test True link_down_re (renderLinkInfo (s_link st))"
proof -
  have 1: "(label (computeQuality pe dr crc lt) = ''BAD (link)'') = linkDown lt" for pe dr crc lt
    by (simp add: computeQuality_def Let_def)
  have 3: "(label (qualityBadge (updateStatsCards st)) = ''BAD (link)'') =
     linkDown (renderLinkInfo (s_link st))"
    by (simp add: updateStatsCards_def Let_def 1)
  show ?thesis
    using 1 [of pe dr crc lt] 3 linkDown_iff [of lt] by (simp add: linkDown_def)
qed

theorem bad_link_iff_pattern_witness:
  "label (computeQuality 0 0 0 ''Unknown'') = ''BAD (link)'' \<and>
   label (qualityBadge (updateStatsCards
      \<lparr>s_link = Some \<lparr>l_ok = Some True, l_link = ''Unknown'', l_speed = []\<rparr>, s_delta = None\<rparr>)) = ''BAD (link)''"
proof -
  have r: "renderLinkInfo (Some \<lparr>l_ok = Some True, l_link = ''Unknown'', l_speed = []\<rparr>) = ''Unknown''"
    by (simp add: renderLinkInfo_def trim_def is_ws_def ws_chars_def Let_def)
  have u: "regex_test True link_down_re ''Unknown''"
    using linkDown_Unknown by (simp add: linkDown_def)
  show ?thesis
    using bad_link_iff_pattern [of 0 0 0 "''Unknown''"
        "\<lparr>s_link = Some \<lparr>l_ok = Some True, l_link = ''Unknown'', l_speed = []\<rparr>, s_delta = None\<rparr>"]
      r u
    by simp
qed

section \<open>Properties of the parser\<close>

lemma toSelectedUnits_scale:
  "toSelectedUnits v p u =
     (if toUpperCase p = ''K'' then v / 1000 else if toUpperCase p = ''G'' then v * 1000 else v) *
     (if u = ''Kbps'' then 1000 else if u = ''Gbps'' then 1 / 1000 else 1)"
  by (simp add: toSelectedUnits_def Let_def toUpperCase_def upper_char_def
      lower_letters_def upper_letters_def)

lemma extractBandwidth_numeric:
  "regex_test False numeric_re (trim line) \<Longrightarrow> extractBandwidth line u = Some (Number (trim line))"
  by (simp add: extractBandwidth_def Let_def)

lemma extractBandwidth_no_match:
  "\<not> regex_test False numeric_re (trim line) \<Longrightarrow>
   matchAll True bandwidth_re (trim line) (trim line) = [] \<Longrightarrow> extractBandwidth line u = None"
  by (simp add: extractBandwidth_def Let_def)

lemma extract_941:
  "extractBandwidth ''941 Mbits/sec'' ''Mbps'' = Some 941"
  "extractBandwidth ''941 Mbits/sec'' ''Gbps'' = Some 0.941"
  "extractBandwidth ''941 Mbits/sec'' ''Kbps'' = Some 941000"
  by code_simp+

lemma extract_iperf_line:
  "extractBandwidth ''[  5]   0.00-1.00   sec   112 MBytes   941 Mbits/sec'' ''Gbps'' = Some 0.941"
  by code_simp

lemma extract_bare_number: "extractBandwidth ''42'' ''Mbps'' = Some 42"
  by code_simp

lemma no_match_42: "matchAll True bandwidth_re ''42'' ''42'' = []"
  by code_simp

lemma hello_not_numeric: "\<not> regex_test False numeric_re (trim ''hello'')"
  by code_simp

lemma no_match_hello: "matchAll True bandwidth_re (trim ''hello'') (trim ''hello'') = []"
  by code_simp

lemma numeric_minus_one: "regex_test False numeric_re (trim ''-1'')"
  by code_simp

section \<open>Properties of the gauge\<close>

lemma magnitude_bounds:
  assumes "0 < n"
  shows "0 < gauge_magnitude n" "5 * gauge_magnitude n \<le> n" "n < 50 * gauge_magnitude n"
proof -
  define k where "k = \<lfloor>log 10 (n / 5)\<rfloor>"
  from assms have pos: "0 < n / 5" by simp
  have "\<lfloor>log 10 (n / 5)\<rfloor> = k" by (simp add: k_def)
  then have b: "10 powr (of_int k) \<le> n / 5" "n / 5 < 10 powr (of_int k + 1)"
    using floor_log_eq_powr_iff [OF pos, of 10 k] by simp_all
  have m: "gauge_magnitude n = 10 powr (of_int k)" by (simp add: gauge_magnitude_def k_def)
  show "0 < gauge_magnitude n" by (simp add: m)
  from b(1) show "5 * gauge_magnitude n \<le> n" by (simp add: m)
  have "(10::real) powr (of_int k + 1) = 10 * 10 powr (of_int k)" by (simp add: powr_add)
  with b(2) show "n < 50 * gauge_magnitude n" by (simp add: m)
qed

lemma magnitude_is_power: "\<exists>k::int. gauge_magnitude n = 10 powr (of_int k)"
  unfolding gauge_magnitude_def by blast

lemma magnitude_unique:
  assumes "5 * 10 powr (of_int k) \<le> n" "n < 50 * 10 powr (of_int k)"
  shows "gauge_magnitude n = 10 powr (of_int k)"
proof -
  have "(0::real) < 10 powr (of_int k)" by simp
  with assms(1) have pos: "0 < n / 5" by (smt (verit) divide_pos_pos)
  have e: "(10::real) powr (of_int k + 1) = 10 * 10 powr (of_int k)" by (simp add: powr_add)
  from assms have "10 powr (of_int k) \<le> n / 5 \<and> n / 5 < 10 powr (of_int k + 1)"
    by (simp add: e)
  then have "\<lfloor>log 10 (n / 5)\<rfloor> = k"
    using floor_log_eq_powr_iff [OF pos, of 10 k] by simp
  then show ?thesis by (simp add: gauge_magnitude_def)
qed

lemma gauge_step_cases:
  assumes "0 < n"
  shows "gauge_step n =
     (if n < 6 * gauge_magnitude n then gauge_magnitude n
      else if n < 12 * gauge_magnitude n then 2 * gauge_magnitude n
      else 5 * gauge_magnitude n)"
proof -
  from magnitude_bounds [OF assms] have m: "0 < gauge_magnitude n" by simp
  then show ?thesis
    by (simp add: gauge_step_def Let_def niceSteps_def pos_divide_less_eq)
qed

text \<open>Rounding up to a multiple of a positive step: the least multiple that is not below.\<close>

lemma ceil_mult_eq:
  assumes "0 < s" "(of_int j - 1) * s < n" "n \<le> of_int j * s"
  shows "of_int \<lceil>n / s\<rceil> * s = of_int j * s"
proof -
  from assms have "of_int j - 1 < n / s" "n / s \<le> of_int j"
    by (simp_all add: pos_less_divide_eq pos_divide_le_eq)
  then have "\<lceil>n / s\<rceil> = j" by (rule ceiling_unique)
  then show ?thesis by simp
qed

lemma round_up_ge:
  assumes n: "0 < n"
  shows "n \<le> round_up_max n"
proof -
  define s where "s = gauge_step n"
  have s: "0 < s"
    using magnitude_bounds(1) [OF n] by (simp add: s_def gauge_step_cases [OF n])
  have "n / s \<le> of_int \<lceil>n / s\<rceil>" by (rule le_of_int_ceiling)
  then have "n / s * s \<le> of_int \<lceil>n / s\<rceil> * s"
    using s by (intro mult_right_mono) simp_all
  moreover have "n / s * s = n" using s by simp
  ultimately have "n \<le> of_int \<lceil>n / s\<rceil> * s" by simp
  then show ?thesis by (simp add: round_up_max_def s_def)
qed

text \<open>In terms of the power of ten \<open>m\<close> below a fifth of the candidate.\<close>

lemma round_up_max_in:
  assumes m: "m = 10 powr (of_int k)" and lo: "5 * m \<le> n" and hi: "n < 50 * m"
  shows "gauge_magnitude n = m"
    and "gauge_step n = (if n < 6 * m then m else if n < 12 * m then 2 * m else 5 * m)"
proof -
  have mp: "0 < m" by (simp add: m)
  with lo have n: "0 < n" by linarith
  show g: "gauge_magnitude n = m" using magnitude_unique [of k n] lo hi by (simp add: m)
  show "gauge_step n = (if n < 6 * m then m else if n < 12 * m then 2 * m else 5 * m)"
    by (simp add: gauge_step_cases [OF n] g)
qed

lemma round_up_exact:
  assumes m: "m = 10 powr (of_int k)" and lo: "5 * m \<le> n" and hi: "n < 50 * m"
    and s: "s = (if n < 6 * m then m else if n < 12 * m then 2 * m else 5 * m)"
    and j: "(of_int j - 1) * s < n" "n \<le> of_int j * s"
  shows "round_up_max n = of_int j * s"
proof -
  have mp: "0 < m" by (simp add: m)
  then have sp: "0 < s" by (simp add: s)
  have "gauge_step n = s" using round_up_max_in(2) [OF m lo hi] s by simp
  then show ?thesis using ceil_mult_eq [OF sp j] by (simp add: round_up_max_def)
qed


lemma round_up_s1:
  assumes "m = 10 powr (of_int k)" "5 * m \<le> n" "n < 6 * m"
    "(of_int j - 1) * m < n" "n \<le> of_int j * m"
  shows "round_up_max n = of_int j * m"
proof -
  have "0 < m" using assms(1) by simp
  with assms show ?thesis using round_up_exact [of m k n m j] by simp
qed

lemma round_up_s2:
  assumes "m = 10 powr (of_int k)" "6 * m \<le> n" "n < 12 * m"
    "(of_int j - 1) * (2 * m) < n" "n \<le> of_int j * (2 * m)"
  shows "round_up_max n = of_int j * (2 * m)"
proof -
  have "0 < m" using assms(1) by simp
  with assms show ?thesis using round_up_exact [of m k n "2 * m" j] by simp
qed

lemma round_up_s5:
  assumes "m = 10 powr (of_int k)" "12 * m \<le> n" "n < 50 * m"
    "(of_int j - 1) * (5 * m) < n" "n \<le> of_int j * (5 * m)"
  shows "round_up_max n = of_int j * (5 * m)"
proof -
  have "0 < m" using assms(1) by simp
  with assms show ?thesis using round_up_exact [of m k n "5 * m" j] by simp
qed

text \<open>A candidate just below a nice maximum is rounded up to that maximum.\<close>

lemma round_up_below_nice:
  assumes m: "m = 10 powr (of_int k)" and c: "c \<in> nice_coeffs"
    and lo: "0.96 * (c * m) < n" and hi: "n < c * m"
  shows "round_up_max n = c * m"
proof -
  have mp: "0 < m" by (simp add: m)
  from c consider "c = 5" | "c = 6" | "c = 8" | "c = 10" | "c = 12" | "c = 15" | "c = 20"
    | "c = 25" | "c = 30" | "c = 35" | "c = 40" | "c = 45" | "c = 50"
    by (auto simp: nice_coeffs_def)
  then show ?thesis
  proof cases
    case 1
    define m' :: real where "m' = 10 powr (of_int (k - 1))"
    have mm: "m = 10 * m'" by (simp add: m m'_def powr_diff)
    have "round_up_max n = of_int 10 * (5 * m')"
      using lo hi mp 1 mm by (intro round_up_s5 [of m' "k - 1"]) (simp_all add: m'_def)
    then show ?thesis by (simp add: 1 mm)
  next
    case 2
    have "round_up_max n = of_int 6 * m"
      using lo hi mp 2 by (intro round_up_s1 [OF m]) simp_all
    then show ?thesis by (simp add: 2)
  next
    case 3
    have "round_up_max n = of_int 4 * (2 * m)"
      using lo hi mp 3 by (intro round_up_s2 [OF m]) simp_all
    then show ?thesis by (simp add: 3)
  next
    case 4
    have "round_up_max n = of_int 5 * (2 * m)"
      using lo hi mp 4 by (intro round_up_s2 [OF m]) simp_all
    then show ?thesis by (simp add: 4)
  next
    case 5
    have "round_up_max n = of_int 6 * (2 * m)"
      using lo hi mp 5 by (intro round_up_s2 [OF m]) simp_all
    then show ?thesis by (simp add: 5)
  next
    case 6
    have "round_up_max n = of_int 3 * (5 * m)"
      using lo hi mp 6 by (intro round_up_s5 [OF m]) simp_all
    then show ?thesis by (simp add: 6)
  next
    case 7
    have "round_up_max n = of_int 4 * (5 * m)"
      using lo hi mp 7 by (intro round_up_s5 [OF m]) simp_all
    then show ?thesis by (simp add: 7)
  next
    case 8
    have "round_up_max n = of_int 5 * (5 * m)"
      using lo hi mp 8 by (intro round_up_s5 [OF m]) simp_all
    then show ?thesis by (simp add: 8)
  next
    case 9
    have "round_up_max n = of_int 6 * (5 * m)"
      using lo hi mp 9 by (intro round_up_s5 [OF m]) simp_all
    then show ?thesis by (simp add: 9)
  next
    case 10
    have "round_up_max n = of_int 7 * (5 * m)"
      using lo hi mp 10 by (intro round_up_s5 [OF m]) simp_all
    then show ?thesis by (simp add: 10)
  next
    case 11
    have "round_up_max n = of_int 8 * (5 * m)"
      using lo hi mp 11 by (intro round_up_s5 [OF m]) simp_all
    then show ?thesis by (simp add: 11)
  next
    case 12
    have "round_up_max n = of_int 9 * (5 * m)"
      using lo hi mp 12 by (intro round_up_s5 [OF m]) simp_all
    then show ?thesis by (simp add: 12)
  next
    case 13
    have "round_up_max n = of_int 10 * (5 * m)"
      using lo hi mp 13 by (intro round_up_s5 [OF m]) simp_all
    then show ?thesis by (simp add: 13)
  qed
qed


lemma ceiling_range:
  assumes "0 < s" "of_int a * s \<le> n" "n < of_int b * s"
  shows "a \<le> \<lceil>n / s\<rceil>" "\<lceil>n / s\<rceil> \<le> b"
proof -
  from assms have x: "of_int a \<le> n / s" "n / s < of_int b"
    by (simp_all add: pos_le_divide_eq pos_divide_less_eq)
  from x(1) show "a \<le> \<lceil>n / s\<rceil>" by (simp add: le_ceiling_iff)
  from x(2) show "\<lceil>n / s\<rceil> \<le> b" by (simp add: ceiling_le_iff)
qed

text \<open>Whatever the candidate, the rounded maximum is one of the nice values.\<close>

lemma round_up_nice:
  assumes n: "0 < n"
  shows "nice_max (round_up_max n)"
proof -
  define m where "m = gauge_magnitude n"
  obtain k :: int where k: "m = 10 powr (of_int k)"
    using magnitude_is_power [of n] by (auto simp: m_def)
  have mp: "0 < m" by (simp add: k)
  from magnitude_bounds [OF n] have b: "5 * m \<le> n" "n < 50 * m" by (simp_all add: m_def)
  have st: "gauge_step n = (if n < 6 * m then m else if n < 12 * m then 2 * m else 5 * m)"
    by (simp add: gauge_step_cases [OF n] m_def)
  consider "n < 6 * m" | "6 * m \<le> n" "n < 12 * m" | "12 * m \<le> n" by linarith
  then show ?thesis
  proof cases
    case 1
    define j where "j = \<lceil>n / m\<rceil>"
    have r: "round_up_max n = of_int j * m" using 1 by (simp add: round_up_max_def st j_def)
    have "5 \<le> j" "j \<le> 6"
      using ceiling_range [of m 5 n 6] mp b 1 by (simp_all add: j_def)
    then have "j = 5 \<or> j = 6" by arith
    then have "(of_int j :: real) \<in> nice_coeffs" by (auto simp: nice_coeffs_def)
    with r k show ?thesis unfolding nice_max_def by blast
  next
    case 2
    define j where "j = \<lceil>n / (2 * m)\<rceil>"
    have r: "round_up_max n = (2 * of_int j) * m" using 2 by (simp add: round_up_max_def st j_def)
    have "3 \<le> j" "j \<le> 6"
      using ceiling_range [of "2 * m" 3 n 6] mp 2 by (simp_all add: j_def)
    then have "j = 3 \<or> j = 4 \<or> j = 5 \<or> j = 6" by arith
    then have "(2 * of_int j :: real) \<in> nice_coeffs" by (auto simp: nice_coeffs_def)
    with r k show ?thesis unfolding nice_max_def by blast
  next
    case 3
    define j where "j = \<lceil>n / (5 * m)\<rceil>"
    have r: "round_up_max n = (5 * of_int j) * m" using 3 mp by (simp add: round_up_max_def st j_def)
    have "2 < n / (5 * m)" using mp 3 by (simp add: pos_less_divide_eq)
    then have "3 \<le> j" by (simp add: j_def le_ceiling_iff)
    have "j \<le> 10"
      using ceiling_range(2) [of "5 * m" 2 n 10] mp 3 b by (simp add: j_def)
    note \<open>3 \<le> j\<close> \<open>j \<le> 10\<close>
    then have "j = 3 \<or> j = 4 \<or> j = 5 \<or> j = 6 \<or> j = 7 \<or> j = 8 \<or> j = 9 \<or> j = 10" by arith
    then have "(5 * of_int j :: real) \<in> nice_coeffs" by (auto simp: nice_coeffs_def)
    with r k show ?thesis unfolding nice_max_def by blast
  qed
qed

lemma nice_max_pos:
  assumes "nice_max M"
  shows "0 < M"
proof -
  from assms obtain k :: int and c where k: "c \<in> nice_coeffs" "M = c * 10 powr (of_int k)"
    unfolding nice_max_def by blast
  from k(1) have "0 < c" unfolding nice_coeffs_def by fastforce
  moreover have "(0::real) < 10 powr (of_int k)" by simp
  ultimately show ?thesis unfolding k(2) by (rule mult_pos_pos)
qed

lemma nice_initial: "M \<in> {1, 10, 1000, 1000000} \<Longrightarrow> nice_max M"
proof -
  assume "M \<in> {1, 10, 1000, 1000000}"
  then consider "M = 1" | "M = 10" | "M = 1000" | "M = 1000000" by auto
  then show ?thesis
  proof cases
    case 1
    have "(10::real) \<in> nice_coeffs" "M = 10 * 10 powr (of_int (- 1))"
      by (simp_all add: nice_coeffs_def 1 powr_minus)
    then show ?thesis unfolding nice_max_def by blast
  next
    case 2
    have "(10::real) \<in> nice_coeffs" "M = 10 * 10 powr (of_int 0)"
      by (simp_all add: nice_coeffs_def 2)
    then show ?thesis unfolding nice_max_def by blast
  next
    case 3
    have "(10::real) \<in> nice_coeffs" "M = 10 * 10 powr (of_int 2)"
      by (simp_all add: nice_coeffs_def 3)
    then show ?thesis unfolding nice_max_def by blast
  next
    case 4
    have "(10::real) \<in> nice_coeffs" "M = 10 * 10 powr (of_int 5)"
      by (simp_all add: nice_coeffs_def 4)
    then show ?thesis unfolding nice_max_def by blast
  qed
qed

text \<open>One expansion from a nice maximum: the scale does not shrink and stays nice.\<close>

lemma expand_from_nice:
  assumes M: "nice_max M" and v: "M * 0.8 < v"
  shows "M \<le> round_up_max (candidate_max v)" "nice_max (round_up_max (candidate_max v))"
proof -
  from nice_max_pos [OF M] v have vp: "0 < v" by linarith
  then have c: "candidate_max v = v * 1.2" "0 < candidate_max v" by (simp_all add: candidate_max_def)
  show "nice_max (round_up_max (candidate_max v))" by (rule round_up_nice [OF c(2)])
  from M obtain k :: int and c' where k: "c' \<in> nice_coeffs" "M = c' * 10 powr (of_int k)"
    unfolding nice_max_def by blast
  have lo: "0.96 * M < candidate_max v" using v by (simp add: c(1))
  show "M \<le> round_up_max (candidate_max v)"
  proof (cases "candidate_max v < M")
    case True
    have "round_up_max (candidate_max v) = c' * 10 powr (of_int k)"
      using lo True k by (intro round_up_below_nice [of _ k]) simp_all
    with k show ?thesis by simp
  next
    case False
    with round_up_ge [OF c(2)] show ?thesis by linarith
  qed
qed

lemma max_of_updateGauge:
  "max_of (updateGauge v g) =
     (if gauge g \<noteq> None \<and> v > max_of g * 0.8 then round_up_max (candidate_max v) else max_of g)"
  by (cases "gauge g")
    (simp_all add: updateGauge_def max_of_def stopSweep_def expand_scale_def Let_def)

lemma gauge_updateGauge: "(gauge (updateGauge v g) = None) = (gauge g = None)"
  by (cases "gauge g") (simp_all add: updateGauge_def stopSweep_def)

lemma updateGauge_nice:
  assumes "gauge g \<noteq> None" "nice_max (max_of g)"
  shows "max_of g \<le> max_of (updateGauge v g)" "nice_max (max_of (updateGauge v g))"
  using assms expand_from_nice [of "max_of g" v] by (simp_all add: max_of_updateGauge)

lemma feed_snoc: "feed g (vs @ [v]) = updateGauge v (feed g vs)"
  by (simp add: feed_def)

lemma feed_nice:
  assumes "gauge g \<noteq> None" "nice_max (max_of g)"
  shows "gauge (feed g vs) \<noteq> None \<and> nice_max (max_of (feed g vs))"
proof (induction vs rule: rev_induct)
  case Nil
  from assms show ?case by (simp add: feed_def)
next
  case (snoc v vs)
  then show ?case
    using updateGauge_nice(2) [of "feed g vs" v] by (simp add: feed_snoc gauge_updateGauge)
qed

lemma initGauge_max:
  "gauge (initGauge doSweep initialMax f a i True g0) \<noteq> None \<and>
   max_of (initGauge doSweep initialMax f a i True g0) = initialMax"
  by (simp add: initGauge_def Let_def startSweep_def stopSweep_def max_of_def)


lemma gauge_step_shape:
  assumes n: "0 < n"
  shows "(\<exists>k::int. \<exists>c\<in>{1, 2, 5}. gauge_step n = c * 10 powr (of_int k)) \<and>
         (n / gauge_step n < 6 \<or> (gauge_step n = 5 * gauge_magnitude n \<and> n / gauge_step n < 10))"
proof -
  define m where "m = gauge_magnitude n"
  obtain k :: int where k: "m = 10 powr (of_int k)"
    using magnitude_is_power [of n] by (auto simp: m_def)
  have mp: "0 < m" by (simp add: k)
  from magnitude_bounds [OF n] have b: "5 * m \<le> n" "n < 50 * m" by (simp_all add: m_def)
  have st: "gauge_step n = (if n < 6 * m then m else if n < 12 * m then 2 * m else 5 * m)"
    by (simp add: gauge_step_cases [OF n] m_def)
  consider "n < 6 * m" | "6 * m \<le> n" "n < 12 * m" | "12 * m \<le> n" by linarith
  then show ?thesis
  proof cases
    case 1
    then have "gauge_step n = 1 * m" using mp by (simp add: st)
    then have s: "gauge_step n = 1 * 10 powr (of_int k)" by (simp add: k)
    have "n / gauge_step n < 6" using 1 mp by (simp add: st pos_divide_less_eq)
    with s show ?thesis by blast
  next
    case 2
    then have "gauge_step n = 2 * m" using mp by (simp add: st)
    then have s: "gauge_step n = 2 * 10 powr (of_int k)" by (simp add: k)
    have "n / gauge_step n < 6" using 2 mp by (simp add: st pos_divide_less_eq)
    with s show ?thesis by blast
  next
    case 3
    then have "gauge_step n = 5 * m" using mp by (simp add: st)
    then have s: "gauge_step n = 5 * 10 powr (of_int k)" by (simp add: k)
    have "gauge_step n = 5 * gauge_magnitude n" "n / gauge_step n < 10"
      using 3 mp b by (simp_all add: st pos_divide_less_eq m_def)
    with s show ?thesis by blast
  qed
qed

text \<open>
  C1 (as the code has it). A gauge initialised with one of the maxima the scripts use (1,
  10, 1000, 1000000) never lowers its scale, whatever samples it is fed: each further sample
  leaves the maximum where it is or raises it. A sample above 0.8 times the maximum sets the
  maximum to the candidate (1.2 times the sample) rounded up to a multiple of the step, the
  step being 1, 2 or 5 times a power of ten; the candidate spans fewer than 6 steps, or the
  step is the largest one, 5 times the magnitude, and the candidate spans fewer than 10.
  Any other sample leaves the maximum unchanged.
\<close>

theorem gauge_scale_never_decreases:
  assumes "initialMax \<in> {1, 10, 1000, 1000000}"
    and "g = feed (initGauge doSweep initialMax f a i True g0) vs"
    and "n = candidate_max v" and "s = gauge_step n"
  shows "max_of g \<le> max_of (feed (initGauge doSweep initialMax f a i True g0) (vs @ [v])) \<and>
     max_of (feed (initGauge doSweep initialMax f a i True g0) (vs @ [v])) =
       (if v > max_of g * 0.8 then of_int \<lceil>n / s\<rceil> * s else max_of g) \<and>
     (if v > max_of g * 0.8
      then (\<exists>k::int. \<exists>c\<in>{1, 2, 5}. s = c * 10 powr (of_int k)) \<and>
           (n / s < 6 \<or> (s = 5 * gauge_magnitude n \<and> n / s < 10))
      else True)"
proof -
  define g1 where "g1 = initGauge doSweep initialMax f a i True g0"
  have "gauge g1 \<noteq> None" "nice_max (max_of g1)"
    using initGauge_max [of doSweep initialMax f a i g0] nice_initial [OF assms(1)]
    by (simp_all add: g1_def)
  from feed_nice [OF this, of vs] have g: "gauge g \<noteq> None" "nice_max (max_of g)"
    by (simp_all add: assms(2) g1_def)
  have 1: "max_of g \<le> max_of (updateGauge v g)" by (rule updateGauge_nice(1) [OF g])
  have 2: "max_of (updateGauge v g) =
       (if v > max_of g * 0.8 then of_int \<lceil>n / s\<rceil> * s else max_of g)"
    using g(1) by (simp add: max_of_updateGauge round_up_max_def assms(3,4))
  have 3: "(\<exists>k::int. \<exists>c\<in>{1, 2, 5}. s = c * 10 powr (of_int k)) \<and>
           (n / s < 6 \<or> (s = 5 * gauge_magnitude n \<and> n / s < 10))" if "v > max_of g * 0.8"
  proof -
    from nice_max_pos [OF g(2)] that have "0 < v" by linarith
    then have "0 < n" by (simp add: assms(3) candidate_max_def)
    from gauge_step_shape [OF this] show ?thesis by (simp add: assms(4))
  qed
  have e: "feed (initGauge doSweep initialMax f a i True g0) (vs @ [v]) = updateGauge v g"
    by (simp add: feed_snoc assms(2))
  from 1 2 3 show ?thesis unfolding e by simp
qed

lemma round_up_12: "round_up_max 12 = 15"
  using round_up_s5 [of 1 0 12 3] by simp

lemma round_up_600: "round_up_max 600 = 600"
  using round_up_s2 [of 100 2 600 3] by simp

lemma step_3600: "gauge_magnitude 3600 = 100" "gauge_step 3600 = 500"
  using round_up_max_in [of 100 2 3600] by simp_all

lemma round_up_3600: "round_up_max 3600 = 4000"
  using round_up_s5 [of 100 2 3600 8] by simp


lemma gauge10_feed:
  "max_of gauge10 = 10"
  "max_of (feed gauge10 [10]) = 15"
  "max_of (feed gauge10 [10, 500]) = 600"
  "max_of (feed gauge10 [10, 500, 50]) = 600"
proof -
  have g: "gauge g \<noteq> None" if "g = feed gauge10 vs" for g vs
    using that feed_nice [of gauge10 vs] initGauge_max [of False 10 "0.12" 2500 700 gauge_module0]
      nice_initial [of 10]
    by (simp add: gauge10_def)
  show 0: "max_of gauge10 = 10"
    using initGauge_max [of False 10 "0.12" 2500 700 gauge_module0] by (simp add: gauge10_def)
  have f0: "feed gauge10 [] = gauge10" by (simp add: feed_def)
  show 1: "max_of (feed gauge10 [10]) = 15"
    using feed_snoc [of gauge10 "[]" 10] g [of gauge10 "[]"] 0 f0
    by (simp add: max_of_updateGauge candidate_max_def round_up_12)
  show 2: "max_of (feed gauge10 [10, 500]) = 600"
    using feed_snoc [of gauge10 "[10]" 500] g [of "feed gauge10 [10]" "[10]"] 1
    by (simp add: max_of_updateGauge candidate_max_def round_up_600)
  show "max_of (feed gauge10 [10, 500, 50]) = 600"
    using feed_snoc [of gauge10 "[10, 500]" 50] g [of "feed gauge10 [10, 500]" "[10, 500]"] 2
    by (simp add: max_of_updateGauge candidate_max_def)
qed

theorem gauge_scale_never_decreases_witness:
  "max_of (feed gauge10 [10]) \<le> max_of (feed gauge10 [10, 500]) \<and>
   max_of (feed gauge10 [10, 500]) \<le> max_of (feed gauge10 [10, 500, 50]) \<and>
   max_of (feed gauge10 [10, 500]) = 600 \<and> max_of (feed gauge10 [10, 500, 50]) = 600"
  using gauge_scale_never_decreases [of 10 "feed gauge10 [10]" False "0.12" 2500 700 gauge_module0
      "[10]" "candidate_max 500" 500 "gauge_step (candidate_max 500)"]
    gauge_scale_never_decreases [of 10 "feed gauge10 [10, 500]" False "0.12" 2500 700 gauge_module0
      "[10, 500]" "candidate_max 50" 50 "gauge_step (candidate_max 50)"]
    gauge10_feed
  by (simp add: gauge10_def)

text \<open>
  C1 as stated fails where it bounds the gradations: from the maximum 1000 the sample 3000
  gives the candidate 3600, no step of 100, 200 or 500 spans it in fewer than 6, the code
  falls back to 500, and the new maximum 4000 carries 9 labels.
\<close>

theorem gauge_gradations_counterexample:
  "3000 > max_of (initGauge True 1000 0.12 2500 700 True gauge_module0) * 0.8 \<and>
   gauge_step (candidate_max 3000) = 500 \<and>
   \<not> candidate_max 3000 / gauge_step (candidate_max 3000) < 6 \<and>
   max_of (updateGauge 3000 (initGauge True 1000 0.12 2500 700 True gauge_module0)) = 4000 \<and>
   map_option (\<lambda>gb. length (staticLabels gb))
     (gauge (updateGauge 3000 (initGauge True 1000 0.12 2500 700 True gauge_module0))) = Some 9"
proof -
  have c: "candidate_max 3000 = 3600" by (simp add: candidate_max_def)
  have i: "gauge (initGauge True 1000 0.12 2500 700 True gauge_module0) \<noteq> None"
    "max_of (initGauge True 1000 0.12 2500 700 True gauge_module0) = 1000"
    using initGauge_max [of True 1000 "0.12" 2500 700 gauge_module0] by simp_all
  have m: "max_of (updateGauge 3000 (initGauge True 1000 0.12 2500 700 True gauge_module0)) = 4000"
    using i by (simp add: max_of_updateGauge c round_up_3600)
  have l: "map_option (\<lambda>gb. length (staticLabels gb))
     (gauge (updateGauge 3000 (initGauge True 1000 0.12 2500 700 True gauge_module0))) = Some 9"
    by (simp add: updateGauge_def initGauge_def gauge_module0_def startSweep_def stopSweep_def
        Let_def expand_scale_def c round_up_3600 step_3600 Math_round_def)
  from i m l show ?thesis by (simp add: c step_3600)
qed

section \<open>Properties of the session controller\<close>

lemma upd_run_fields [simp]:
  "window_iperfES (upd_run rid f t) = window_iperfES t"
  "open_es (upd_run rid f t) = open_es t"
  "next_id (upd_run rid f t) = next_id t"
  "runs (upd_run rid f t) = (runs t)(rid := map_option f (runs t rid))"
  "statusText (upd_run rid f t) = statusText t"
  "avgText (upd_run rid f t) = avgText t"
  "maxText (upd_run rid f t) = maxText t"
  "resultText (upd_run rid f t) = resultText t"
  "gm (upd_run rid f t) = gm t"
  "requests (upd_run rid f t) = requests t"
  "form (upd_run rid f t) = form t"
  "bandwidthSum (upd_run rid f t) = bandwidthSum t"
  "bandwidthCount (upd_run rid f t) = bandwidthCount t"
  "maxBandwidth (upd_run rid f t) = maxBandwidth t"
  "runBtn_disabled (upd_run rid f t) = runBtn_disabled t"
  by (simp_all add: upd_run_def)

lemma showOverlay_fields [simp]:
  "window_iperfES (showOverlay x c t) = window_iperfES t"
  "open_es (showOverlay x c t) = open_es t"
  "next_id (showOverlay x c t) = next_id t"
  "runs (showOverlay x c t) = runs t"
  "statusText (showOverlay x c t) = statusText t"
  "avgText (showOverlay x c t) = avgText t"
  "maxText (showOverlay x c t) = maxText t"
  "resultText (showOverlay x c t) = resultText t"
  "gm (showOverlay x c t) = gm t"
  "requests (showOverlay x c t) = requests t"
  "form (showOverlay x c t) = form t"
  "bandwidthSum (showOverlay x c t) = bandwidthSum t"
  "bandwidthCount (showOverlay x c t) = bandwidthCount t"
  "maxBandwidth (showOverlay x c t) = maxBandwidth t"
  "runBtn_disabled (showOverlay x c t) = runBtn_disabled t"
  "overlay_text (showOverlay x c t) = x"
  by (simp_all add: showOverlay_def)

lemma cleanup_fields [simp]:
  "window_iperfES (cleanup rid reset True t) = None"
  "open_es (cleanup rid reset True t) =
     open_es t - set_option (case runs t rid of Some r \<Rightarrow> r_eventSource r | None \<Rightarrow> None)
       - set_option (window_iperfES t)"
  "runs (cleanup rid reset True t) =
     (runs t)(rid := map_option (\<lambda>r. r\<lparr>r_noDataTimer := None, r_eventSource := None\<rparr>) (runs t rid))"
  "next_id (cleanup rid reset cs t) = next_id t"
  "statusText (cleanup rid reset cs t) = statusText t"
  "avgText (cleanup rid reset cs t) = avgText t"
  "maxText (cleanup rid reset cs t) = maxText t"
  "resultText (cleanup rid reset cs t) = resultText t"
  "runBtn_disabled (cleanup rid reset cs t) = False"
  "gm (cleanup rid reset cs t) = (if reset then resetGauge (gm t) else gm t)"
  "overlay_shown (cleanup rid reset cs t) = False"
  "requests (cleanup rid reset cs t) = requests t"
  "form (cleanup rid reset cs t) = form t"
  "bandwidthSum (cleanup rid reset cs t) = bandwidthSum t"
  "bandwidthCount (cleanup rid reset cs t) = bandwidthCount t"
  "maxBandwidth (cleanup rid reset cs t) = maxBandwidth t"
  by (auto simp: cleanup_def Let_def close_es_def upd_run_def stopNoDataTimer_def hideOverlay_def
      split: option.splits)

lemma armNoDataTimer_fields [simp]:
  "window_iperfES (armNoDataTimer rid now t) = window_iperfES t"
  "open_es (armNoDataTimer rid now t) = open_es t"
  "next_id (armNoDataTimer rid now t) = next_id t"
  "runs (armNoDataTimer rid now t) =
     (runs t)(rid := map_option (\<lambda>r. r\<lparr>r_noDataTimer := Some (now + NO_DATA_MS (r_mode r))\<rparr>) (runs t rid))"
  "statusText (armNoDataTimer rid now t) = statusText t"
  "avgText (armNoDataTimer rid now t) = avgText t"
  "maxText (armNoDataTimer rid now t) = maxText t"
  "resultText (armNoDataTimer rid now t) = resultText t"
  "gm (armNoDataTimer rid now t) = gm t"
  "requests (armNoDataTimer rid now t) = requests t"
  "form (armNoDataTimer rid now t) = form t"
  "bandwidthSum (armNoDataTimer rid now t) = bandwidthSum t"
  "bandwidthCount (armNoDataTimer rid now t) = bandwidthCount t"
  "maxBandwidth (armNoDataTimer rid now t) = maxBandwidth t"
  "runBtn_disabled (armNoDataTimer rid now t) = runBtn_disabled t"
  by (cases "runs t rid"; simp add: armNoDataTimer_def upd_run_def stopNoDataTimer_def)+

text \<open>The payloads that end a run.\<close>

lemma handle_payload_conn:
  "open_es (handle_payload rid r s t) =
     (if s = ''-1'' \<or> s = ''server is busy''
      then open_es t - set_option (case runs t rid of Some r \<Rightarrow> r_eventSource r | None \<Rightarrow> None)
             - set_option (window_iperfES t)
      else open_es t)"
  "window_iperfES (handle_payload rid r s t) =
     (if s = ''-1'' \<or> s = ''server is busy'' then None else window_iperfES t)"
  "next_id (handle_payload rid r s t) = next_id t"
  "runs (handle_payload rid r s t) =
     (if s = ''-1'' \<or> s = ''server is busy''
      then (runs t)(rid := map_option (\<lambda>r. r\<lparr>r_noDataTimer := None, r_eventSource := None\<rparr>) (runs t rid))
      else runs t)"
  by (auto simp: handle_payload_def Let_def split: option.splits)

lemma on_click_conn:
  "open_es (on_click now t) = insert (next_id t) (open_es t - set_option (window_iperfES t))"
  "window_iperfES (on_click now t) = Some (next_id t)"
  "next_id (on_click now t) = next_id t + 1"
  by (auto simp: on_click_def Let_def close_es_def split: option.splits)

lemma one_connection_step:
  assumes "one_connection t"
  shows "one_connection (step t e)"
proof (cases e)
  case (Click now)
  with assms show ?thesis
    by (auto simp: one_connection_def on_click_conn)
next
  case (EsMessage rid data now)
  with assms show ?thesis
    by (auto simp: one_connection_def on_message_def handle_payload_conn split: option.splits)
next
  case (EsError rid isClosed now)
  with assms show ?thesis
    by (auto simp: one_connection_def on_error_def Let_def)
next
  case (NoDataTimeout rid now)
  with assms show ?thesis
    by (auto simp: one_connection_def on_no_data_timeout_def no_data_timeout_def Let_def
        split: option.splits)
next
  case (StartOk rid cmd)
  with assms show ?thesis
    by (auto simp: one_connection_def on_start_ok_def Let_def split: option.splits)
next
  case (StartNotOk rid err st)
  with assms show ?thesis
    by (auto simp: one_connection_def on_start_not_ok_def catch_run_error_def Let_def
        split: option.splits)
next
  case (StartRejected rid msg)
  with assms show ?thesis
    by (auto simp: one_connection_def on_start_rejected_def catch_run_error_def Let_def
        split: option.splits)
qed (use assms in \<open>auto simp: one_connection_def on_open_def hideOverlay_def\<close>)


lemma ids_fresh_step:
  assumes "ids_fresh t"
  shows "ids_fresh (step t e)"
proof (cases e)
  case (Click now)
  with assms show ?thesis
    by (auto simp: ids_fresh_def on_click_conn)
next
  case (EsMessage rid data now)
  with assms show ?thesis
    by (auto simp: ids_fresh_def on_message_def handle_payload_conn split: option.splits)
next
  case (EsError rid isClosed now)
  with assms show ?thesis
    by (auto simp: ids_fresh_def on_error_def Let_def)
next
  case (NoDataTimeout rid now)
  with assms show ?thesis
    by (auto simp: ids_fresh_def on_no_data_timeout_def no_data_timeout_def Let_def
        split: option.splits)
next
  case (StartOk rid cmd)
  with assms show ?thesis
    by (auto simp: ids_fresh_def on_start_ok_def Let_def split: option.splits)
next
  case (StartNotOk rid err st)
  with assms show ?thesis
    by (auto simp: ids_fresh_def on_start_not_ok_def catch_run_error_def Let_def
        split: option.splits)
next
  case (StartRejected rid msg)
  with assms show ?thesis
    by (auto simp: ids_fresh_def on_start_rejected_def catch_run_error_def Let_def
        split: option.splits)
qed (use assms in \<open>auto simp: ids_fresh_def on_open_def hideOverlay_def\<close>)

lemma run_events_snoc: "run_events t (es @ [e]) = step (run_events t es) e"
  by (simp add: run_events_def)

lemma invariants_run_events:
  assumes "one_connection t" "ids_fresh t"
  shows "one_connection (run_events t es) \<and> ids_fresh (run_events t es)"
proof (induction es rule: rev_induct)
  case Nil
  from assms show ?case by (simp add: run_events_def)
next
  case (snoc e es)
  then show ?case by (simp add: run_events_snoc one_connection_step ids_fresh_step)
qed

lemma one_connection_card: "one_connection t \<Longrightarrow> card (open_es t) \<le> 1"
proof -
  assume "one_connection t"
  then have "open_es t \<subseteq> set_option (window_iperfES t)" by (simp add: one_connection_def)
  then have "card (open_es t) \<le> card (set_option (window_iperfES t))"
    by (intro card_mono) (cases "window_iperfES t"; simp)+
  also have "\<dots> \<le> 1" by (cases "window_iperfES t") simp_all
  finally show ?thesis .
qed

lemma click_connection:
  assumes "one_connection t" "ids_fresh t"
  shows "open_es (step t (Click now)) = {next_id t}" "next_id t \<notin> open_es t"
    "window_iperfES (step t (Click now)) = Some (next_id t)"
  using assms
  by (auto simp: one_connection_def ids_fresh_def on_click_conn)

lemma cleanup_released:
  assumes "one_connection t" "runs t rid \<noteq> None"
  shows "conn_released rid (cleanup rid reset True t)"
  using assms by (auto simp: conn_released_def one_connection_def)


lemma message_end_released:
  assumes "one_connection t" "runs t rid = Some r" "rid \<in> open_es t"
    "trim data = ''-1'' \<or> trim data = ''server is busy''"
  shows "conn_released rid (step t (EsMessage rid data now))"
  using assms
  by (auto simp: on_message_def conn_released_def one_connection_def handle_payload_conn)

lemma error_closed_released:
  assumes "one_connection t" "runs t rid = Some r" "rid \<in> open_es t"
  shows "conn_released rid (step t (EsError rid True now))"
  using assms by (auto simp: on_error_def Let_def conn_released_def one_connection_def)

lemma timeout_released:
  assumes "one_connection t" "runs t rid = Some r" "r_noDataTimer r = Some due" "due \<le> now"
  shows "conn_released rid (step t (NoDataTimeout rid now))"
  using assms
  by (auto simp: on_no_data_timeout_def no_data_timeout_def Let_def conn_released_def
      one_connection_def)

lemma start_failure_released:
  assumes "one_connection t" "runs t rid = Some r" "r_startPending r"
  shows "conn_released rid (step t (StartNotOk rid err st))"
    "conn_released rid (step t (StartRejected rid msg))"
  using assms
  by (auto simp: on_start_not_ok_def on_start_rejected_def catch_run_error_def Let_def
      conn_released_def one_connection_def)

text \<open>
  C7. At every moment at most one EventSource is open, and it is the one
  \<open>window.__iperfES\<close> refers to: this holds in every state reached from a page without
  connections, whatever events arrive in whatever order. A click on Run leaves exactly the
  new connection open (a connection left over from the run before is closed first), and
  every way a run ends (the end marker, the busy message, a closed stream, the inactivity
  timeout, a failed start request) leaves no connection open and no reference to one.
\<close>

theorem at_most_one_connection:
  assumes "one_connection t" and "ids_fresh t" and "t' = run_events t es"
  shows "card (open_es t') \<le> 1 \<and> open_es t' \<subseteq> set_option (window_iperfES t') \<and>
     open_es (step t' (Click now)) = {next_id t'} \<and> next_id t' \<notin> open_es t' \<and>
     window_iperfES (step t' (Click now)) = Some (next_id t') \<and>
     (runs t' rid \<noteq> None \<and> rid \<in> open_es t' \<and>
        (trim data = ''-1'' \<or> trim data = ''server is busy'') \<longrightarrow>
        conn_released rid (step t' (EsMessage rid data now))) \<and>
     (runs t' rid \<noteq> None \<and> rid \<in> open_es t' \<longrightarrow>
        conn_released rid (step t' (EsError rid True now))) \<and>
     (map_option r_noDataTimer (runs t' rid) = Some (Some due) \<and> due \<le> now \<longrightarrow>
        conn_released rid (step t' (NoDataTimeout rid now))) \<and>
     (map_option r_startPending (runs t' rid) = Some True \<longrightarrow>
        conn_released rid (step t' (StartNotOk rid err st)) \<and>
        conn_released rid (step t' (StartRejected rid msg)))"
proof -
  from invariants_run_events [OF assms(1,2), of es]
  have i: "one_connection t'" "ids_fresh t'" by (simp_all add: assms(3))
  note c = click_connection [OF i]
  from i(1) have s: "open_es t' \<subseteq> set_option (window_iperfES t')" by (simp add: one_connection_def)
  show ?thesis
    using one_connection_card [OF i(1)] s c(1) [of now] c(2) c(3) [of now]
      message_end_released [OF i(1), where rid = rid and data = data and now = now]
      error_closed_released [OF i(1), where rid = rid and now = now]
      timeout_released [OF i(1), where rid = rid and due = due and now = now]
      start_failure_released(1) [OF i(1), where rid = rid and err = err and st = st]
      start_failure_released(2) [OF i(1), where rid = rid and msg = msg]
    by (cases "runs t' rid") simp_all
qed

lemma tab0_invariants: "one_connection tab0" "ids_fresh tab0"
  by (simp_all add: one_connection_def ids_fresh_def tab0_def)

lemma valid_10M: "regex_test True bandwidth_field_re (trim ''10M'')"
  by code_simp

lemma click_tab0:
  "runs (on_click 0 tab0) 0 = Some run0"
  "open_es (on_click 0 tab0) = {0}"
  "window_iperfES (on_click 0 tab0) = Some 0"
  "next_id (on_click 0 tab0) = 1"
  by (simp_all add: on_click_def tab0_def Let_def close_es_def NO_DATA_MS_def run0_def
      armNoDataTimer_def stopNoDataTimer_def)

theorem at_most_one_connection_witness:
  "card (open_es (run_events tab0 [Click 0])) \<le> 1 \<and>
   open_es (step (run_events tab0 [Click 0]) (Click 45000)) = {1} \<and>
   conn_released 0 (step (run_events tab0 [Click 0]) (EsMessage 0 ''-1'' 45000)) \<and>
   conn_released 0 (step (run_events tab0 [Click 0]) (EsMessage 0 ''server is busy'' 45000)) \<and>
   conn_released 0 (step (run_events tab0 [Click 0]) (EsError 0 True 45000)) \<and>
   conn_released 0 (step (run_events tab0 [Click 0]) (NoDataTimeout 0 45000)) \<and>
   conn_released 0 (step (run_events tab0 [Click 0]) (StartNotOk 0 ''iperf3 not found'' ''Internal Server Error'')) \<and>
   conn_released 0 (step (run_events tab0 [Click 0]) (StartRejected 0 ''The operation was aborted.''))"
proof -
  have e: "run_events tab0 [Click 0] = step tab0 (Click 0)" by (simp add: run_events_def)
  have t: "trim ''-1'' = ''-1''" "trim ''server is busy'' = ''server is busy''"
    by (simp_all add: trim_def is_ws_def ws_chars_def)
  note a = at_most_one_connection [OF tab0_invariants e [symmetric], where now = 45000 and rid = 0
      and due = 45000 and err = "''iperf3 not found''" and st = "''Internal Server Error''"
      and msg = "''The operation was aborted.''"]
  show ?thesis
    using a [where data = "''-1''"] a [where data = "''server is busy''"]
    by (simp add: e click_tab0 t run0_def)
qed














end
